theory Spec2Isabelle
  imports Main
begin

section \<open>Selectors and constants of utils.py\<close>

definition LAW :: string where
  "LAW = ''https://services.ecourts.gov.in/ecourtindia_v6/?p=cause_list/''"

text \<open>
  The script handed to \<^verbatim>\<open>page.evaluate\<close>, line by line; each line ends with a line feed.
\<close>

definition IMG_TO_CANVAS_JS :: string where
  "IMG_TO_CANVAS_JS =
     ''() => {'' @ [CHR 0x0A] @
     ''        const img = document.querySelector(\"img#captcha_image\");'' @ [CHR 0x0A] @
     ''        if (!img) throw new Error(\"Image not found\");'' @ [CHR 0x0A] @
     [CHR 0x0A] @
     ''        const canvas = document.createElement(\"canvas\");'' @ [CHR 0x0A] @
     ''        const ctx = canvas.getContext(\"2d\");'' @ [CHR 0x0A] @
     ''        canvas.width = img.naturalWidth;'' @ [CHR 0x0A] @
     ''        canvas.height = img.naturalHeight;'' @ [CHR 0x0A] @
     ''        ctx.drawImage(img, 0, 0);'' @ [CHR 0x0A] @
     [CHR 0x0A] @
     ''        return canvas.toDataURL(\"image/png\");'' @ [CHR 0x0A] @
     ''    }'' @ [CHR 0x0A]"

definition CLOSE :: string where
  "CLOSE = ''div.modal-header.text-center.align-items-start button.btn-close''"

definition CNR_NUMBER :: string where
  "CNR_NUMBER = ''span.fw-bold.text-uppercase.fs-5.me-2.text-danger''"

definition STATE :: string where "STATE = ''#sess_state_code''"
definition DIST :: string where "DIST = ''#sess_dist_code''"
definition COURT :: string where "COURT = ''#court_complex_code''"
definition COURT_NAME :: string where "COURT_NAME = ''#CL_court_no''"
definition DATE :: string where "DATE = ''#causelist_date''"
definition CAPTCHA_CODE :: string where "CAPTCHA_CODE = ''#cause_list_captcha_code''"
definition REFRESH :: string where "REFRESH = ''img.refresh-btn''"
definition VIEW :: string where "VIEW = ''a.someclass''"
definition BACK :: string where "BACK = ''button#main_back_CauseList''"

definition MAX_ITERATIONS :: nat where "MAX_ITERATIONS = 10"

datatype CaseType = CIVIL | CRIMINAL

text \<open>\<^verbatim>\<open>case_type.value\<close>: the selector of the button of a case type.\<close>

fun case_value :: "CaseType \<Rightarrow> string" where
  "case_value CIVIL = ''button:has-text('' @ [CHR 0x27] @ ''Civil'' @ [CHR 0x27] @ '')''"
| "case_value CRIMINAL = ''button:has-text('' @ [CHR 0x27] @ ''Criminal'' @ [CHR 0x27] @ '')''"

text \<open>The named tuple \<^verbatim>\<open>Dict(cnr, path)\<close> that the generators yield.\<close>

datatype Dict = Dict (cnr: string) (path: string)

section \<open>Paths\<close>

text \<open>
  \<^verbatim>\<open>pathlib.Path\<close> in its POSIX flavour: a root (empty for a relative path) and the
  list of components. Parsing a segment drops empty components and \<^verbatim>\<open>.\<close>; joining a
  segment that is absolute discards what came before it.
\<close>

datatype path = Path (root: string) (parts: "string list")

fun split_on :: "char \<Rightarrow> string \<Rightarrow> string list" where
  "split_on c [] = [[]]"
| "split_on c (x # xs) =
     (if x = c then [] # split_on c xs
      else (case split_on c xs of [] \<Rightarrow> [[x]] | y # ys \<Rightarrow> (x # y) # ys))"

definition root_of :: "string \<Rightarrow> string" where
  "root_of s =
     (if take 1 s \<noteq> ''/'' then ''''
      else if take 2 s = ''//'' \<and> take 3 s \<noteq> ''///'' then ''//''
      else ''/'')"

definition parts_of :: "string \<Rightarrow> string list" where
  "parts_of s = filter (\<lambda>c. c \<noteq> '''' \<and> c \<noteq> ''.'') (split_on CHR ''/'' s)"

definition parse_path :: "string \<Rightarrow> path" where
  "parse_path s = Path (root_of s) (parts_of s)"

definition join1 :: "path \<Rightarrow> string \<Rightarrow> path" where
  "join1 p s =
     (if root_of s \<noteq> '''' then parse_path s
      else Path (root p) (parts p @ parts_of s))"

definition joinpath :: "path \<Rightarrow> string list \<Rightarrow> path" where
  "joinpath p segs = foldl join1 p segs"

text \<open>\<^verbatim>\<open>Path.absolute()\<close>: a relative path is put under the working directory.\<close>

definition absolute :: "path \<Rightarrow> path \<Rightarrow> path" where
  "absolute cwd p = (if root p \<noteq> '''' then p else Path (root cwd) (parts cwd @ parts p))"

fun intercalate :: "string \<Rightarrow> string list \<Rightarrow> string" where
  "intercalate sep [] = ''''"
| "intercalate sep [x] = x"
| "intercalate sep (x # y # ys) = x @ sep @ intercalate sep (y # ys)"

definition str_path :: "path \<Rightarrow> string" where
  "str_path p =
     (if root p = '''' \<and> parts p = [] then ''.'' else root p @ intercalate ''/'' (parts p))"

section \<open>The browser, the libraries and the log of calls\<close>

datatype exn =
    TimeoutError | UnidentifiedImageError | ValueError | IndexError | KeyError
  | RuntimeError | AssertionError | WebSocketDisconnect | Error

datatype locator =
    Loc string | First locator | Nth locator nat | GetByText locator string

datatype call =
    PlaywrightStart | Launch bool | NewPage | Goto string | WaitForLoadState string
  | Sleep nat | IsVisible locator | Click locator | GetAttribute locator string
  | SelectOption locator "string option" | Fill locator string | All locator
  | InnerText locator | Evaluate string | Pdf path | Makedirs path
  | Print string | Yield Dict | PlaywrightStop
  | SendJson nat "(string \<times> string) list" | LogInfo string | LogError string

datatype ret = RUnit | RBool bool | RStr string | RAttr "string option" | RNat nat

type_synonym event = "call \<times> (exn + ret)"

type_synonym bytes = string

datatype image = Image bytes

text \<open>
  Everything outside the program: what the page, the file system and the libraries answer.
  The state \<open>'w\<close> of the outside world is not fixed; each call may raise, and returns the
  next state. The fields are grouped by the type of what the call returns.
\<close>

record 'w env =
  do_unit :: "call \<Rightarrow> 'w \<Rightarrow> (exn + unit) \<times> 'w"
  ask_bool :: "call \<Rightarrow> 'w \<Rightarrow> (exn + bool) \<times> 'w"
  ask_str :: "call \<Rightarrow> 'w \<Rightarrow> (exn + string) \<times> 'w"
  ask_attr :: "call \<Rightarrow> 'w \<Rightarrow> (exn + string option) \<times> 'w"
  ask_count :: "call \<Rightarrow> 'w \<Rightarrow> (exn + nat) \<times> 'w"
  elapse :: "nat \<Rightarrow> 'w \<Rightarrow> 'w"
  closed :: "'w \<Rightarrow> 'w"
  re_compile :: "string \<Rightarrow> exn + unit"
  b64decode :: "string \<Rightarrow> exn + bytes"
  image_open :: "bytes \<Rightarrow> exn + image"
  image_to_string :: "image \<Rightarrow> exn + string"
  cwd :: path

section \<open>Actions: state, exceptions and emitted events\<close>

type_synonym ('w, 'a) act = "'w \<Rightarrow> (exn + 'a) \<times> 'w \<times> event list"

definition ret :: "'a \<Rightarrow> ('w, 'a) act" where
  "ret x = (\<lambda>w. (Inr x, w, []))"

definition raise :: "exn \<Rightarrow> ('w, 'a) act" where
  "raise e = (\<lambda>w. (Inl e, w, []))"

definition bnd :: "('w, 'a) act \<Rightarrow> ('a \<Rightarrow> ('w, 'b) act) \<Rightarrow> ('w, 'b) act" where
  "bnd m f = (\<lambda>w. case m w of
       (Inl e, w', t) \<Rightarrow> (Inl e, w', t)
     | (Inr x, w', t) \<Rightarrow> (case f x w' of (r, w'', t') \<Rightarrow> (r, w'', t @ t')))"

definition thn :: "('w, 'a) act \<Rightarrow> ('w, 'b) act \<Rightarrow> ('w, 'b) act" where
  "thn m n = bnd m (\<lambda>_. n)"

text \<open>\<^verbatim>\<open>try: m except e: h\<close> for one exception class.\<close>

definition catch :: "exn \<Rightarrow> ('w, 'a) act \<Rightarrow> ('w, 'a) act \<Rightarrow> ('w, 'a) act" where
  "catch e m h = (\<lambda>w. case m w of
       (Inl e', w', t) \<Rightarrow>
         (if e' = e then (case h w' of (r, w'', t') \<Rightarrow> (r, w'', t @ t')) else (Inl e', w', t))
     | (Inr x, w', t) \<Rightarrow> (Inr x, w', t))"

definition lift :: "exn + 'a \<Rightarrow> ('w, 'a) act" where
  "lift r = (\<lambda>w. (r, w, []))"

definition emit :: "call \<Rightarrow> ('w, unit) act" where
  "emit c = (\<lambda>w. (Inr (), w, [(c, Inr RUnit)]))"

definition prim :: "call \<Rightarrow> ('a \<Rightarrow> ret) \<Rightarrow> ('w \<Rightarrow> (exn + 'a) \<times> 'w) \<Rightarrow> ('w, 'a) act" where
  "prim c enc f = (\<lambda>w. case f w of (r, w') \<Rightarrow> (r, w', [(c, map_sum id enc r)]))"

definition outcome :: "(exn + 'a) \<times> 'w \<times> event list \<Rightarrow> exn + 'a" where
  "outcome x = fst x"

definition after :: "(exn + 'a) \<times> 'w \<times> event list \<Rightarrow> 'w" where
  "after x = fst (snd x)"

definition events :: "(exn + 'a) \<times> 'w \<times> event list \<Rightarrow> event list" where
  "events x = snd (snd x)"

definition calls :: "(exn + 'a) \<times> 'w \<times> event list \<Rightarrow> call list" where
  "calls x = map fst (events x)"

subsection \<open>The calls the program makes\<close>

definition print :: "string \<Rightarrow> ('w, unit) act" where
  "print s = emit (Print s)"

definition yield :: "Dict \<Rightarrow> ('w, unit) act" where
  "yield d = emit (Yield d)"

definition sleep :: "'w env \<Rightarrow> nat \<Rightarrow> ('w, unit) act" where
  "sleep e n = (\<lambda>w. (Inr (), elapse e n w, [(Sleep n, Inr RUnit)]))"

definition unit_call :: "'w env \<Rightarrow> call \<Rightarrow> ('w, unit) act" where
  "unit_call e c = prim c (\<lambda>_. RUnit) (do_unit e c)"

definition goto :: "'w env \<Rightarrow> string \<Rightarrow> ('w, unit) act" where
  "goto e url = unit_call e (Goto url)"

definition wait_for_load_state :: "'w env \<Rightarrow> string \<Rightarrow> ('w, unit) act" where
  "wait_for_load_state e s = unit_call e (WaitForLoadState s)"

definition click :: "'w env \<Rightarrow> locator \<Rightarrow> ('w, unit) act" where
  "click e l = unit_call e (Click l)"

definition select_option :: "'w env \<Rightarrow> locator \<Rightarrow> string option \<Rightarrow> ('w, unit) act" where
  "select_option e l v = unit_call e (SelectOption l v)"

definition fill :: "'w env \<Rightarrow> locator \<Rightarrow> string \<Rightarrow> ('w, unit) act" where
  "fill e l v = unit_call e (Fill l v)"

definition pdf :: "'w env \<Rightarrow> path \<Rightarrow> ('w, unit) act" where
  "pdf e p = unit_call e (Pdf p)"

definition makedirs :: "'w env \<Rightarrow> path \<Rightarrow> ('w, unit) act" where
  "makedirs e p = unit_call e (Makedirs p)"

definition is_visible :: "'w env \<Rightarrow> locator \<Rightarrow> ('w, bool) act" where
  "is_visible e l = prim (IsVisible l) RBool (ask_bool e (IsVisible l))"

definition get_attribute :: "'w env \<Rightarrow> locator \<Rightarrow> string \<Rightarrow> ('w, string option) act" where
  "get_attribute e l a = prim (GetAttribute l a) RAttr (ask_attr e (GetAttribute l a))"

definition inner_text :: "'w env \<Rightarrow> locator \<Rightarrow> ('w, string) act" where
  "inner_text e l = prim (InnerText l) RStr (ask_str e (InnerText l))"

definition evaluate :: "'w env \<Rightarrow> string \<Rightarrow> ('w, string) act" where
  "evaluate e js = prim (Evaluate js) RStr (ask_str e (Evaluate js))"

text \<open>\<^verbatim>\<open>locator.all()\<close>: one \<^verbatim>\<open>nth\<close> locator for each element that matches now.\<close>

definition all_loc :: "'w env \<Rightarrow> locator \<Rightarrow> ('w, locator list) act" where
  "all_loc e l = bnd (prim (All l) RNat (ask_count e (All l))) (\<lambda>n. ret (map (Nth l) [0..<n]))"

section \<open>WebScraper\<close>

text \<open>\<^verbatim>\<open>download_image\<close>: the data URL of the drawn captcha, cut at the comma, decoded.\<close>

definition download_image :: "'w env \<Rightarrow> ('w, bytes) act" where
  "download_image e =
     bnd (evaluate e IMG_TO_CANVAS_JS) (\<lambda>data_url.
       (case split_on CHR '','' data_url of
          _ # base64_data # _ \<Rightarrow> lift (b64decode e base64_data)
        | _ \<Rightarrow> raise IndexError))"

definition solve_captcha :: "'w env \<Rightarrow> ('w, string) act" where
  "solve_captcha e =
     catch UnidentifiedImageError
       (bnd (download_image e) (\<lambda>data.
        bnd (lift (image_open e data)) (\<lambda>image.
          lift (image_to_string e image))))
       (thn (print ''[ERROR]: Invalid Image format found'') (ret ''''))"

definition fill_value :: "'w env \<Rightarrow> string \<Rightarrow> string \<Rightarrow> ('w, unit) act" where
  "fill_value e node v =
     catch TimeoutError
       (thn (fill e (Loc node) '''') (fill e (Loc node) v))
       (print ''[ERROR]: Failed to fill input'')"

text \<open>The four \<^verbatim>\<open>choose_*\<close> helpers: a timeout is printed and swallowed.\<close>

definition choose_option :: "'w env \<Rightarrow> string \<Rightarrow> string \<Rightarrow> ('w, unit) act" where
  "choose_option e parent name =
     thn (click e (Loc parent))
    (thn (lift (re_compile e name))
    (bnd (get_attribute e (GetByText (Loc (parent @ '' option'')) name) ''value'') (\<lambda>v.
       select_option e (Loc parent) v)))"

definition choose_state :: "'w env \<Rightarrow> string \<Rightarrow> ('w, unit) act" where
  "choose_state e name =
     catch TimeoutError (choose_option e STATE name)
       (print (''[ERROR]: Failed to find option '' @ name @ '' for State''))"

definition choose_district :: "'w env \<Rightarrow> string \<Rightarrow> ('w, unit) act" where
  "choose_district e name =
     catch TimeoutError (choose_option e DIST name)
       (print (''[ERROR]: Failed to find option '' @ name @ '' for District''))"

definition choose_complex :: "'w env \<Rightarrow> string \<Rightarrow> ('w, unit) act" where
  "choose_complex e name =
     catch TimeoutError (choose_option e COURT name)
       (print (''[ERROR]: Failed to find option '' @ name @ '' for Court Complex''))"

definition choose_name :: "'w env \<Rightarrow> string \<Rightarrow> ('w, unit) act" where
  "choose_name e name =
     catch TimeoutError (choose_option e COURT_NAME name)
       (print (''[ERROR]: Failed to find option '' @ name @ '' for Court Name''))"

text \<open>
  \<^verbatim>\<open>get_all_options\<close>: the texts of the options that have a value and no
  \<^verbatim>\<open>disabled\<close> attribute, in the order of the page.
\<close>

fun collect_options :: "'w env \<Rightarrow> locator list \<Rightarrow> string list \<Rightarrow> ('w, string list) act" where
  "collect_options e [] loc = ret loc"
| "collect_options e (i # options) loc =
     bnd (get_attribute e i ''value'') (\<lambda>v.
     bnd (inner_text e i) (\<lambda>text.
     bnd (get_attribute e i ''disabled'') (\<lambda>disabled.
       collect_options e options
         (if (case v of None \<Rightarrow> '''' | Some s \<Rightarrow> s) \<noteq> '''' \<and> disabled = None
          then loc @ [text] else loc))))"

definition get_all_options :: "'w env \<Rightarrow> string \<Rightarrow> ('w, string list) act" where
  "get_all_options e node =
     thn (sleep e 5)
    (bnd (all_loc e (Loc (node @ '' option''))) (\<lambda>options.
       collect_options e options []))"

text \<open>
  \<^verbatim>\<open>get_pdfs\<close>. \<open>export_records\<close> is its \<^verbatim>\<open>for\<close> loop and \<open>export_row\<close> the
  body of the loop; each \<^verbatim>\<open>yield\<close> is an event.
\<close>

record WebScraper =
  PATH :: string
  HEADLESS :: bool

definition pdf_name :: "string \<Rightarrow> string" where
  "pdf_name name = name @ ''.pdf''"

definition export_row :: "'w env \<Rightarrow> path \<Rightarrow> locator \<Rightarrow> ('w, unit) act" where
  "export_row e parent record =
     thn (click e record)
    (thn (sleep e 5)
    (bnd (inner_text e (First (Loc CNR_NUMBER))) (\<lambda>name.
     thn (pdf e (absolute (cwd e) (joinpath parent [pdf_name name])))
    (thn (sleep e 5)
    (thn (click e (Loc BACK))
    (thn (wait_for_load_state e ''networkidle'')
         (yield (Dict name (str_path (joinpath parent [pdf_name name]))))))))))"

fun export_records :: "'w env \<Rightarrow> path \<Rightarrow> locator list \<Rightarrow> ('w, unit) act" where
  "export_records e parent [] = ret ()"
| "export_records e parent (record # records) =
     thn (export_row e parent record) (export_records e parent records)"

definition pdf_parent :: "WebScraper \<Rightarrow> string \<Rightarrow> string \<Rightarrow> string \<Rightarrow> string \<Rightarrow> path" where
  "pdf_parent self state dist court court_name =
     joinpath (parse_path (PATH self)) [state, dist, court, court_name]"

definition get_pdfs ::
  "'w env \<Rightarrow> WebScraper \<Rightarrow> string \<Rightarrow> string \<Rightarrow> string \<Rightarrow> string \<Rightarrow> ('w, unit) act" where
  "get_pdfs e self state dist court court_name =
     thn (sleep e 5)
    (bnd (all_loc e (Loc VIEW)) (\<lambda>records.
       catch TimeoutError
         (if records \<noteq> [] then
            thn (makedirs e (pdf_parent self state dist court court_name))
                (export_records e (pdf_parent self state dist court court_name) records)
          else ret ())
         (print (''[ERROR]: Failed to download pdf for State '' @ state @ '' - District ''
                  @ dist @ '' - Court Complex '' @ court @ '' - Court name '' @ court_name))))"

text \<open>
  The retry loop of \<^verbatim>\<open>pass_captcha\<close>. The condition reads the modal first and the counter
  second. \<open>pass_captcha_body\<close> is the body of the loop up to \<^verbatim>\<open>idx += 1\<close>; the loop returns
  the last value of \<^verbatim>\<open>idx\<close>. The recursion is written on the result of each step: the first
  exception ends the loop, and the events of the steps are put one after the other.
\<close>

definition pass_captcha_body :: "'w env \<Rightarrow> CaseType \<Rightarrow> ('w, unit) act" where
  "pass_captcha_body e case_type =
     thn (click e (First (Loc CLOSE)))
    (thn (click e (Loc REFRESH))
    (thn (sleep e 2)
    (thn (bnd (solve_captcha e) (fill_value e CAPTCHA_CODE))
    (thn (click e (Loc (case_value case_type)))
         (sleep e 2)))))"

function pass_captcha_loop :: "'w env \<Rightarrow> CaseType \<Rightarrow> nat \<Rightarrow> ('w, nat) act" where
  "pass_captcha_loop e case_type idx w =
     (case is_visible e (First (Loc CLOSE)) w of
        (Inl ex, w1, t1) \<Rightarrow> (Inl ex, w1, t1)
      | (Inr visible, w1, t1) \<Rightarrow>
          if visible \<and> idx < MAX_ITERATIONS then
            (case pass_captcha_body e case_type w1 of
               (Inl ex, w2, t2) \<Rightarrow> (Inl ex, w2, t1 @ t2)
             | (Inr u, w2, t2) \<Rightarrow>
                 (case pass_captcha_loop e case_type (idx + 1) w2 of
                    (r, w3, t3) \<Rightarrow> (r, w3, t1 @ t2 @ t3)))
          else (Inr idx, w1, t1))"
  by pat_completeness auto
termination
  by (relation "measure (\<lambda>(e, case_type, idx, w). MAX_ITERATIONS - idx)") auto

definition pass_captcha :: "'w env \<Rightarrow> CaseType \<Rightarrow> ('w, unit) act" where
  "pass_captcha e case_type =
     bnd (pass_captcha_loop e case_type 0) (\<lambda>idx.
       if idx = MAX_ITERATIONS then raise ValueError else ret ())"

text \<open>
  \<^verbatim>\<open>async with async_playwright() as p\<close>: the body runs after the start, and the
  browser is shut down however the body ends.
\<close>

definition with_playwright :: "'w env \<Rightarrow> ('w, 'a) act \<Rightarrow> ('w, 'a) act" where
  "with_playwright e body =
     thn (unit_call e PlaywrightStart)
       (\<lambda>w. case body w of (r, w', t) \<Rightarrow> (r, closed e w', t @ [(PlaywrightStop, Inr RUnit)]))"

definition dismiss_modal :: "'w env \<Rightarrow> ('w, unit) act" where
  "dismiss_modal e =
     bnd (is_visible e (First (Loc CLOSE))) (\<lambda>visible.
       if visible then click e (First (Loc CLOSE)) else ret ())"

definition begin_scrape ::
  "'w env \<Rightarrow> WebScraper \<Rightarrow> string \<Rightarrow> string \<Rightarrow> string \<Rightarrow> string \<Rightarrow> string \<Rightarrow> CaseType
     \<Rightarrow> ('w, unit) act" where
  "begin_scrape e self chosen_state chosen_dist chosen_court chosen_court_name chosen_date
       case_type =
     with_playwright e
      (thn (unit_call e (Launch (HEADLESS self)))
      (thn (unit_call e NewPage)
      (thn (goto e LAW)
      (thn (wait_for_load_state e ''networkidle'')
      (thn (sleep e 5)
      (thn (dismiss_modal e)
      (thn (choose_state e chosen_state)
      (thn (choose_district e chosen_dist)
      (thn (choose_complex e chosen_court)
      (thn (choose_name e chosen_court_name)
      (thn (fill e (Loc DATE) chosen_date)
      (thn (fill_value e DATE chosen_date)
      (thn (bnd (solve_captcha e) (fill_value e CAPTCHA_CODE))
      (thn (click e (Loc (case_value case_type)))
      (thn (pass_captcha e case_type)
           (get_pdfs e self chosen_state chosen_dist chosen_court chosen_court_name))))))))))))))))"

text \<open>The \<^verbatim>\<open>for name in court_names\<close> loop of \<^verbatim>\<open>begin_scrape_all\<close>.\<close>

fun scrape_courts ::
  "'w env \<Rightarrow> WebScraper \<Rightarrow> string \<Rightarrow> string \<Rightarrow> string \<Rightarrow> string \<Rightarrow> CaseType \<Rightarrow> string list
     \<Rightarrow> ('w, unit) act" where
  "scrape_courts e self chosen_state chosen_dist chosen_court chosen_date case_type [] = ret ()"
| "scrape_courts e self chosen_state chosen_dist chosen_court chosen_date case_type
       (name # court_names) =
     thn (dismiss_modal e)
    (thn (choose_name e name)
    (thn (fill e (Loc DATE) chosen_date)
    (thn (fill_value e DATE chosen_date)
    (thn (bnd (solve_captcha e) (fill_value e CAPTCHA_CODE))
    (thn (click e (Loc (case_value case_type)))
    (thn (pass_captcha e case_type)
    (thn (sleep e 3)
    (thn (get_pdfs e self chosen_state chosen_dist chosen_court name)
         (scrape_courts e self chosen_state chosen_dist chosen_court chosen_date case_type
            court_names)))))))))"

definition begin_scrape_all ::
  "'w env \<Rightarrow> WebScraper \<Rightarrow> string \<Rightarrow> string \<Rightarrow> string \<Rightarrow> string \<Rightarrow> CaseType \<Rightarrow> ('w, unit) act" where
  "begin_scrape_all e self chosen_state chosen_dist chosen_court chosen_date case_type =
     with_playwright e
      (thn (unit_call e (Launch (HEADLESS self)))
      (thn (unit_call e NewPage)
      (thn (goto e LAW)
      (thn (wait_for_load_state e ''networkidle'')
      (thn (sleep e 5)
      (thn (dismiss_modal e)
      (thn (choose_state e chosen_state)
      (thn (choose_district e chosen_dist)
      (thn (choose_complex e chosen_court)
      (bnd (get_all_options e COURT_NAME) (\<lambda>court_names.
         scrape_courts e self chosen_state chosen_dist chosen_court chosen_date case_type
           court_names)))))))))))"

section \<open>ConnectionManager of server/main.py\<close>

text \<open>
  The manager maps the value of the \<^verbatim>\<open>id\<close> cookie to a WebSocket, here the number of the
  socket object. \<open>wire\<close> is the state of the network; \<open>send\<close> says what \<^verbatim>\<open>send_json\<close> does
  to it, and whether it raises.
\<close>

type_synonym message = "(string \<times> string) list"

record 'n server =
  active_connections :: "string \<rightharpoonup> nat"
  wire :: 'n

definition send_json ::
  "(nat \<Rightarrow> message \<Rightarrow> 'n \<Rightarrow> (exn + unit) \<times> 'n) \<Rightarrow> nat \<Rightarrow> message \<Rightarrow> ('n server, unit) act" where
  "send_json send socket message =
     (\<lambda>s. case send socket message (wire s) of
        (r, n') \<Rightarrow> (r, s\<lparr>wire := n'\<rparr>, [(SendJson socket message, map_sum id (\<lambda>_. RUnit) r)]))"

definition log_info :: "string \<Rightarrow> ('w, unit) act" where
  "log_info s = emit (LogInfo s)"

definition log_error :: "string \<Rightarrow> ('w, unit) act" where
  "log_error s = emit (LogError s)"

text \<open>\<^verbatim>\<open>try: m except (e1, e2, ...) as e: h\<close>.\<close>

definition catch_any :: "exn list \<Rightarrow> ('w, 'a) act \<Rightarrow> (exn \<Rightarrow> ('w, 'a) act) \<Rightarrow> ('w, 'a) act" where
  "catch_any es m h = (\<lambda>w. case m w of
       (Inl e', w', t) \<Rightarrow>
         (if e' \<in> set es then (case h e' w' of (r, w'', t') \<Rightarrow> (r, w'', t @ t'))
          else (Inl e', w', t))
     | (Inr x, w', t) \<Rightarrow> (Inr x, w', t))"

text \<open>\<^verbatim>\<open>d[k]\<close> on a dict.\<close>

definition getitem :: "('k \<rightharpoonup> 'v) \<Rightarrow> 'k \<Rightarrow> ('w, 'v) act" where
  "getitem d k = (case d k of None \<Rightarrow> raise KeyError | Some v \<Rightarrow> ret v)"

definition broadcast ::
  "(nat \<Rightarrow> message \<Rightarrow> 'n \<Rightarrow> (exn + unit) \<times> 'n) \<Rightarrow> string \<Rightarrow> message \<Rightarrow> ('n server, unit) act" where
  "broadcast send idx message =
     catch_any [RuntimeError, AssertionError]
       (\<lambda>s. (if active_connections s idx \<noteq> None then
                bnd (getitem (active_connections s) idx) (\<lambda>socket.
                thn (send_json send socket message)
                    (log_info ''Broadcast message sent''))
              else ret ()) s)
       (\<lambda>ex. log_error ''Error Broadcasting: %s'')"

text \<open>The messages handed to \<^verbatim>\<open>send_json\<close>, with the socket of each.\<close>

definition sent_of :: "event \<Rightarrow> (nat \<times> message) option" where
  "sent_of ev = (case fst ev of SendJson socket m \<Rightarrow> Some (socket, m) | _ \<Rightarrow> None)"

definition sent :: "event list \<Rightarrow> (nat \<times> message) list" where
  "sent t = List.map_filter sent_of t"

section \<open>Reading a log of events\<close>

text \<open>The records yielded, in order.\<close>

definition yield_of :: "event \<Rightarrow> Dict option" where
  "yield_of ev = (case fst ev of Yield d \<Rightarrow> Some d | _ \<Rightarrow> None)"

definition yields :: "event list \<Rightarrow> Dict list" where
  "yields t = List.map_filter yield_of t"

text \<open>The texts read from the CNR label of the page, in order.\<close>

definition cnr_of :: "event \<Rightarrow> string option" where
  "cnr_of ev =
     (case fst ev of
        InnerText l \<Rightarrow>
          (if l = First (Loc CNR_NUMBER)
           then (case snd ev of Inr (RStr name) \<Rightarrow> Some name | _ \<Rightarrow> None) else None)
      | _ \<Rightarrow> None)"

definition cnr_reads :: "event list \<Rightarrow> string list" where
  "cnr_reads t = List.map_filter cnr_of t"

text \<open>The paths handed to \<^verbatim>\<open>page.pdf\<close>, in order.\<close>

definition pdf_of :: "event \<Rightarrow> path option" where
  "pdf_of ev = (case fst ev of Pdf p \<Rightarrow> Some p | _ \<Rightarrow> None)"

definition pdf_paths :: "event list \<Rightarrow> path list" where
  "pdf_paths t = List.map_filter pdf_of t"

text \<open>The calls that write to the file system: \<^verbatim>\<open>os.makedirs\<close> and \<^verbatim>\<open>page.pdf\<close>.\<close>

definition fs_of :: "event \<Rightarrow> call option" where
  "fs_of ev =
     (case fst ev of Pdf p \<Rightarrow> Some (Pdf p) | Makedirs p \<Rightarrow> Some (Makedirs p) | _ \<Rightarrow> None)"

definition fs_calls :: "event list \<Rightarrow> call list" where
  "fs_calls t = List.map_filter fs_of t"

text \<open>The result rows clicked, by their position among the view links.\<close>

definition row_of :: "event \<Rightarrow> nat option" where
  "row_of ev =
     (case fst ev of
        Click l \<Rightarrow> (case l of Nth l' i \<Rightarrow> if l' = Loc VIEW then Some i else None | _ \<Rightarrow> None)
      | _ \<Rightarrow> None)"

definition row_clicks :: "event list \<Rightarrow> nat list" where
  "row_clicks t = List.map_filter row_of t"

text \<open>The rows whose processing reached its last step: the page was loaded again.\<close>

definition done_of :: "event \<Rightarrow> unit option" where
  "done_of ev =
     (case fst ev of
        WaitForLoadState s \<Rightarrow> (case snd ev of Inr r \<Rightarrow> Some () | Inl ex \<Rightarrow> None)
      | _ \<Rightarrow> None)"

definition rows_done :: "event list \<Rightarrow> nat" where
  "rows_done t = length (List.map_filter done_of t)"

text \<open>The number of view links that \<^verbatim>\<open>view.all()\<close> found.\<close>

definition found_of :: "event \<Rightarrow> nat option" where
  "found_of ev =
     (case fst ev of
        All l \<Rightarrow>
          (if l = Loc VIEW then (case snd ev of Inr (RNat n) \<Rightarrow> Some n | _ \<Rightarrow> None) else None)
      | _ \<Rightarrow> None)"

definition links_found :: "event list \<Rightarrow> nat" where
  "links_found t = sum_list (List.map_filter found_of t)"

text \<open>The clicks on the back button that went through.\<close>

definition back_of :: "event \<Rightarrow> unit option" where
  "back_of ev =
     (case fst ev of
        Click l \<Rightarrow>
          (if l = Loc BACK then (case snd ev of Inr r \<Rightarrow> Some () | Inl ex \<Rightarrow> None) else None)
      | _ \<Rightarrow> None)"

definition back_clicks :: "event list \<Rightarrow> nat" where
  "back_clicks t = length (List.map_filter back_of t)"

text \<open>
  What the log holds for a result row that was processed to its end: the click on the view
  link at position \<open>i\<close>, the pause, the reading of the CNR label, the writing of the PDF, the
  pause, the click on the back button, the wait for the page, and the yielded record, none
  of them raising. \<open>rows_events\<close> puts such rows one after the other, from position \<open>i\<close> on.
\<close>

definition row_events :: "'w env \<Rightarrow> path \<Rightarrow> nat \<Rightarrow> string \<Rightarrow> event list" where
  "row_events e parent i name =
     [(Click (Nth (Loc VIEW) i), Inr RUnit),
      (Sleep 5, Inr RUnit),
      (InnerText (First (Loc CNR_NUMBER)), Inr (RStr name)),
      (Pdf (absolute (cwd e) (joinpath parent [name @ ''.pdf''])), Inr RUnit),
      (Sleep 5, Inr RUnit),
      (Click (Loc BACK), Inr RUnit),
      (WaitForLoadState ''networkidle'', Inr RUnit),
      (Yield (Dict name (str_path (joinpath parent [name @ ''.pdf'']))), Inr RUnit)]"

fun rows_events :: "'w env \<Rightarrow> path \<Rightarrow> nat \<Rightarrow> string list \<Rightarrow> event list" where
  "rows_events e parent i [] = []"
| "rows_events e parent i (name # names) =
     row_events e parent i name @ rows_events e parent (Suc i) names"

text \<open>A timeout was caught and reported.\<close>

definition is_print :: "event \<Rightarrow> bool" where
  "is_print ev = (case fst ev of Print s \<Rightarrow> True | _ \<Rightarrow> False)"

definition reported :: "event list \<Rightarrow> bool" where
  "reported t = list_ex is_print t"

text \<open>
  A file lies directly in a directory; a path lies under a directory when it continues the
  directory's components with at least one more and never steps up.
\<close>

definition directly_in :: "path \<Rightarrow> path \<Rightarrow> bool" where
  "directly_in dir p = (root p = root dir \<and> parts p \<noteq> [] \<and> butlast (parts p) = parts dir)"

definition under :: "path \<Rightarrow> path \<Rightarrow> bool" where
  "under dir p =
     (root p = root dir \<and> length (parts dir) < length (parts p)
      \<and> take (length (parts dir)) (parts p) = parts dir
      \<and> ''..'' \<notin> set (drop (length (parts dir)) (parts p)))"

text \<open>The number of times the body of the retry loop was entered.\<close>

definition iterations :: "event list \<Rightarrow> nat" where
  "iterations t = length (filter (\<lambda>ev. fst ev = Click (First (Loc CLOSE))) t)"

text \<open>An action emits only events that satisfy a predicate.\<close>

definition emits :: "(event \<Rightarrow> bool) \<Rightarrow> ('w, 'a) act \<Rightarrow> bool" where
  "emits P m = (\<forall>w. list_all P (events (m w)))"

text \<open>
  A name that is a single component of a path: not empty, not \<open>.\<close> or \<open>..\<close>, and without
  a slash.
\<close>

definition plain :: "string \<Rightarrow> bool" where
  "plain s = (s \<noteq> '''' \<and> s \<noteq> ''.'' \<and> s \<noteq> ''..'' \<and> CHR ''/'' \<notin> set s)"

text \<open>
  A call is an export into a directory for one of the given CNR texts: the creation of the
  directory, or the writing of the PDF at one of the texts, with \<open>.pdf\<close>, joined to it.
\<close>

definition export_of :: "'w env \<Rightarrow> path \<Rightarrow> string list \<Rightarrow> call \<Rightarrow> bool" where
  "export_of e parent names c =
     (c = Makedirs parent
      \<or> list_ex (\<lambda>name. c = Pdf (absolute (cwd e) (joinpath parent [name @ ''.pdf'']))) names)"

text \<open>
  Every call of a log that writes to the file system is an export into the directory of one
  of the court names, for a CNR text read in that log.
\<close>

definition exports_only ::
  "'w env \<Rightarrow> (string \<Rightarrow> path) \<Rightarrow> string list \<Rightarrow> event list \<Rightarrow> bool" where
  "exports_only e dir court_names t =
     list_all (\<lambda>c. list_ex (\<lambda>name. export_of e (dir name) (cnr_reads t) c) court_names)
       (fs_calls t)"

definition keeps ::
  "'w env \<Rightarrow> (string \<Rightarrow> path) \<Rightarrow> string list \<Rightarrow> ('w, 'a) act \<Rightarrow> bool" where
  "keeps e dir court_names m = (\<forall>w. exports_only e dir court_names (events (m w)))"

text \<open>An event that writes no file, reads no CNR label and counts no view links.\<close>

definition quiet :: "event \<Rightarrow> bool" where
  "quiet ev = (fs_of ev = None \<and> cnr_of ev = None \<and> found_of ev = None)"

section \<open>The order of the form\<close>

text \<open>
  The place of a call in the chain of the form: 1 for the state menu, 2 for the district
  menu, 3 for the court complex menu, 4 for the court name menu, 5 for the date field, 6 for
  the captcha field, 7 for the button of the case type, and 0 for every other call.
\<close>

definition select_stage :: "string \<Rightarrow> nat" where
  "select_stage sel =
     (if sel = STATE then 1 else if sel = DIST then 2 else if sel = COURT then 3
      else if sel = COURT_NAME then 4 else 0)"

definition option_stage :: "string \<Rightarrow> nat" where
  "option_stage sel =
     (if sel = STATE @ '' option'' then 1 else if sel = DIST @ '' option'' then 2
      else if sel = COURT @ '' option'' then 3 else if sel = COURT_NAME @ '' option'' then 4
      else 0)"

definition stage :: "CaseType \<Rightarrow> call \<Rightarrow> nat" where
  "stage case_type c =
     (case c of
        Click l \<Rightarrow>
          (case l of Loc sel \<Rightarrow> if sel = case_value case_type then 7 else select_stage sel
           | _ \<Rightarrow> 0)
      | GetAttribute l a \<Rightarrow>
          (case l of GetByText l' name \<Rightarrow> (case l' of Loc sel \<Rightarrow> option_stage sel | _ \<Rightarrow> 0)
           | _ \<Rightarrow> 0)
      | SelectOption l v \<Rightarrow> (case l of Loc sel \<Rightarrow> select_stage sel | _ \<Rightarrow> 0)
      | Fill l v \<Rightarrow>
          (case l of Loc sel \<Rightarrow> if sel = DATE then 5 else if sel = CAPTCHA_CODE then 6 else 0
           | _ \<Rightarrow> 0)
      | _ \<Rightarrow> 0)"

definition form_steps :: "CaseType \<Rightarrow> event list \<Rightarrow> nat list" where
  "form_steps case_type t = filter (\<lambda>k. 0 < k) (map (\<lambda>ev. stage case_type (fst ev)) t)"

text \<open>
  An action keeps the order of the form: in every run its form steps are sorted and lie in
  \<open>K\<close>, and a run that ends without an exception has made a step at each place of \<open>K\<close>.
\<close>

definition in_order :: "CaseType \<Rightarrow> nat set \<Rightarrow> ('w, 'a) act \<Rightarrow> bool" where
  "in_order case_type K m =
     (\<forall>w. sorted (form_steps case_type (events (m w)))
        \<and> set (form_steps case_type (events (m w))) \<subseteq> K
        \<and> ((\<exists>x. outcome (m w) = Inr x) \<longrightarrow> set (form_steps case_type (events (m w))) = K))"

text \<open>
  The options selected: the menu and the value of each \<^verbatim>\<open>select_option\<close> call that went
  through, in order.
\<close>

definition selected_of :: "event \<Rightarrow> (string \<times> string option) option" where
  "selected_of ev =
     (case fst ev of
        SelectOption l v \<Rightarrow>
          (case l of
             Loc sel \<Rightarrow> (case snd ev of Inr r \<Rightarrow> Some (sel, v) | Inl ex \<Rightarrow> None)
           | _ \<Rightarrow> None)
      | _ \<Rightarrow> None)"

definition selections :: "event list \<Rightarrow> (string \<times> string option) list" where
  "selections t = List.map_filter selected_of t"

text \<open>The events of the calls on the form, and the log up to the first click on the button.\<close>

definition form_events :: "CaseType \<Rightarrow> event list \<Rightarrow> event list" where
  "form_events case_type t = filter (\<lambda>ev. 0 < stage case_type (fst ev)) t"

definition before_click :: "CaseType \<Rightarrow> event list \<Rightarrow> event list" where
  "before_click case_type t = takeWhile (\<lambda>ev. stage case_type (fst ev) < 7) t"

text \<open>
  What the log holds for a menu whose option was found and selected: the click on the menu,
  the reading of the value of the option with the chosen text, and the selection of that
  value, none of them raising.
\<close>

definition menu_events :: "string \<Rightarrow> string \<Rightarrow> string option \<Rightarrow> event list" where
  "menu_events parent name v =
     [(Click (Loc parent), Inr RUnit),
      (GetAttribute (GetByText (Loc (parent @ '' option'')) name) ''value'', Inr (RAttr v)),
      (SelectOption (Loc parent) v, Inr RUnit)]"

section \<open>The two entry points, part by part\<close>

text \<open>
  The steps of \<open>begin_scrape\<close> and \<open>begin_scrape_all\<close> under the names the description of
  the program gives them: opening the portal, selecting state, district and court complex,
  the date-fill and captcha-solve steps for one court name, and the loop over court names.
\<close>

definition open_portal :: "'w env \<Rightarrow> WebScraper \<Rightarrow> ('w, unit) act" where
  "open_portal e self =
     thn (unit_call e (Launch (HEADLESS self)))
    (thn (unit_call e NewPage)
    (thn (goto e LAW)
    (thn (wait_for_load_state e ''networkidle'')
    (thn (sleep e 5)
         (dismiss_modal e)))))"

definition select_chain :: "'w env \<Rightarrow> string \<Rightarrow> string \<Rightarrow> string \<Rightarrow> ('w, unit) act" where
  "select_chain e chosen_state chosen_dist chosen_court =
     thn (choose_state e chosen_state)
    (thn (choose_district e chosen_dist)
         (choose_complex e chosen_court))"

definition fill_search :: "'w env \<Rightarrow> string \<Rightarrow> string \<Rightarrow> ('w, unit) act" where
  "fill_search e name chosen_date =
     thn (choose_name e name)
    (thn (fill e (Loc DATE) chosen_date)
    (thn (fill_value e DATE chosen_date)
         (bnd (solve_captcha e) (fill_value e CAPTCHA_CODE))))"

definition submit_search :: "'w env \<Rightarrow> string \<Rightarrow> string \<Rightarrow> CaseType \<Rightarrow> ('w, unit) act" where
  "submit_search e name chosen_date case_type =
     thn (fill_search e name chosen_date)
    (thn (click e (Loc (case_value case_type)))
         (pass_captcha e case_type))"

definition for_each :: "('a \<Rightarrow> ('w, unit) act) \<Rightarrow> 'a list \<Rightarrow> ('w, unit) act" where
  "for_each f xs = foldr (\<lambda>x m. thn (f x) m) xs (ret ())"

definition begin_scrape_spec ::
  "'w env \<Rightarrow> WebScraper \<Rightarrow> string \<Rightarrow> string \<Rightarrow> string \<Rightarrow> string \<Rightarrow> string \<Rightarrow> CaseType
     \<Rightarrow> ('w, unit) act" where
  "begin_scrape_spec e self chosen_state chosen_dist chosen_court chosen_court_name chosen_date
       case_type =
     with_playwright e
      (thn (open_portal e self)
      (thn (select_chain e chosen_state chosen_dist chosen_court)
      (thn (submit_search e chosen_court_name chosen_date case_type)
           (get_pdfs e self chosen_state chosen_dist chosen_court chosen_court_name))))"

definition begin_scrape_all_spec ::
  "'w env \<Rightarrow> WebScraper \<Rightarrow> string \<Rightarrow> string \<Rightarrow> string \<Rightarrow> string \<Rightarrow> CaseType \<Rightarrow> ('w, unit) act" where
  "begin_scrape_all_spec e self chosen_state chosen_dist chosen_court chosen_date case_type =
     with_playwright e
      (thn (open_portal e self)
      (thn (select_chain e chosen_state chosen_dist chosen_court)
      (bnd (get_all_options e COURT_NAME)
        (for_each (\<lambda>name.
           thn (dismiss_modal e)
          (thn (submit_search e name chosen_date case_type)
          (thn (sleep e 3)
               (get_pdfs e self chosen_state chosen_dist chosen_court name))))))))"

section \<open>Reading the court names off a log\<close>

text \<open>
  What three successive reads of one option (its value, its text, its \<^verbatim>\<open>disabled\<close>
  attribute) keep of it: the text, when the value is neither missing nor empty and there is
  no \<^verbatim>\<open>disabled\<close> attribute.
\<close>

definition kept_of :: "event \<Rightarrow> event \<Rightarrow> event \<Rightarrow> string list" where
  "kept_of a b c =
     (case (snd a, snd b, snd c) of
        (Inr (RAttr v), Inr (RStr text), Inr (RAttr d)) \<Rightarrow>
          if v \<noteq> None \<and> v \<noteq> Some '''' \<and> d = None then [text] else []
      | _ \<Rightarrow> [])"

fun options_kept :: "event list \<Rightarrow> string list" where
  "options_kept (a # b # c # t) = kept_of a b c @ options_kept t"
| "options_kept t = []"

text \<open>The court names that \<open>choose_name\<close> looked up in the menu, in order.\<close>

definition searched_of :: "event \<Rightarrow> string option" where
  "searched_of ev =
     (case fst ev of
        GetAttribute l a \<Rightarrow>
          (case l of
             GetByText l' name \<Rightarrow> if l' = Loc (COURT_NAME @ '' option'') then Some name else None
           | _ \<Rightarrow> None)
      | _ \<Rightarrow> None)"

definition names_searched :: "event list \<Rightarrow> string list" where
  "names_searched t = List.map_filter searched_of t"

section \<open>Example pages\<close>

text \<open>
  A page whose modal is visible at the first \<open>k\<close> looks, with \<open>n\<close> result rows and the CNR
  label \<open>name\<close>; every call succeeds. The state counts the looks at the modal.
\<close>

definition demo_env :: "nat \<Rightarrow> nat \<Rightarrow> string \<Rightarrow> nat env" where
  "demo_env k n name =
     \<lparr> do_unit = (\<lambda>c w. (Inr (), w)),
       ask_bool = (\<lambda>c w. (Inr (w < k), Suc w)),
       ask_str = (\<lambda>c w. (Inr (case c of InnerText l \<Rightarrow> name
                                  | _ \<Rightarrow> ''data:image/png;base64,iVBORw0KGgo=''), w)),
       ask_attr = (\<lambda>c w. (Inr (case c of
                      GetAttribute l a \<Rightarrow> if a = ''disabled'' then None else Some ''1''
                    | _ \<Rightarrow> None), w)),
       ask_count = (\<lambda>c w. (Inr n, w)),
       elapse = (\<lambda>n w. w),
       closed = (\<lambda>w. w),
       re_compile = (\<lambda>s. Inr ()),
       b64decode = (\<lambda>s. Inr s),
       image_open = (\<lambda>b. Inr (Image b)),
       image_to_string = (\<lambda>i. Inr ''x7Kp2''),
       cwd = Path ''/'' [''srv''] \<rparr>"

text \<open>
  A page whose court name menu has two options, neither disabled: the first is the
  placeholder, with an empty value, the second a court.
\<close>

definition menu_env :: "nat env" where
  "menu_env =
     (demo_env 0 1 ''MHAU010012342023'')
     \<lparr> ask_str := (\<lambda>c w. (Inr (case c of
            InnerText l \<Rightarrow>
              (case l of
                 Nth l' i \<Rightarrow> if i = 0 then ''Select Court Name'' else ''1-Court''
               | _ \<Rightarrow> ''MHAU010012342023'')
          | _ \<Rightarrow> ''data:image/png;base64,iVBORw0KGgo=''), w)),
       ask_attr := (\<lambda>c w. (Inr (case c of
            GetAttribute l a \<Rightarrow>
              if a = ''disabled'' then None
              else (case l of Nth l' i \<Rightarrow> if i = 0 then Some '''' else Some ''1''
                    | _ \<Rightarrow> Some ''1'')
          | _ \<Rightarrow> None), w)),
       ask_count := (\<lambda>c w. (Inr (case c of
            All l \<Rightarrow> if l = Loc (COURT_NAME @ '' option'') then 2 else 1
          | _ \<Rightarrow> 0), w)) \<rparr>"

text \<open>
  The page of \<open>demo_env 1 1\<close>, but no option of the state menu has the text looked for: the
  reading of its value times out.
\<close>

definition no_state_env :: "nat env" where
  "no_state_env =
     (demo_env 1 1 ''MHAU010012342023'')
     \<lparr> ask_attr := (\<lambda>c w. (case c of
            GetAttribute l a \<Rightarrow>
              (case l of
                 GetByText l' name \<Rightarrow>
                   if l' = Loc (STATE @ '' option'') then Inl TimeoutError else Inr (Some ''1'')
               | _ \<Rightarrow> Inr (if a = ''disabled'' then None else Some ''1''))
          | _ \<Rightarrow> Inr None, w)) \<rparr>"

section \<open>Running actions\<close>

declare pass_captcha_loop.simps [simp del]

lemma run_ret [simp]: "ret x w = (Inr x, w, [])"
  by (simp add: ret_def)

lemma run_raise [simp]: "raise ex w = (Inl ex, w, [])"
  by (simp add: raise_def)

lemma run_lift [simp]: "lift r w = (r, w, [])"
  by (simp add: lift_def)

lemma run_emit [simp]: "emit c w = (Inr (), w, [(c, Inr RUnit)])"
  by (simp add: emit_def)

lemma outcome_simp [simp]: "outcome (r, w, t) = r"
  by (simp add: outcome_def)

lemma after_simp [simp]: "after (r, w, t) = w"
  by (simp add: after_def)

lemma events_simp [simp]: "events (r, w, t) = t"
  by (simp add: events_def)

lemma run_eta: "x = (outcome x, after x, events x)"
  by (simp add: outcome_def after_def events_def)

lemma events_bnd:
  "events (bnd m f w) =
     events (m w) @ (case outcome (m w) of Inl ex \<Rightarrow> [] | Inr x \<Rightarrow> events (f x (after (m w))))"
  by (simp add: bnd_def outcome_def after_def events_def split: prod.splits sum.splits)

lemma outcome_bnd:
  "outcome (bnd m f w) =
     (case outcome (m w) of Inl ex \<Rightarrow> Inl ex | Inr x \<Rightarrow> outcome (f x (after (m w))))"
  by (simp add: bnd_def outcome_def after_def split: prod.splits sum.splits)

lemma after_bnd:
  "after (bnd m f w) =
     (case outcome (m w) of Inl ex \<Rightarrow> after (m w) | Inr x \<Rightarrow> after (f x (after (m w))))"
  by (simp add: bnd_def outcome_def after_def split: prod.splits sum.splits)

lemma events_thn:
  "events (thn m n w) =
     events (m w) @ (case outcome (m w) of Inl ex \<Rightarrow> [] | Inr x \<Rightarrow> events (n (after (m w))))"
  by (simp add: thn_def events_bnd)

lemma outcome_thn:
  "outcome (thn m n w) =
     (case outcome (m w) of Inl ex \<Rightarrow> Inl ex | Inr x \<Rightarrow> outcome (n (after (m w))))"
  by (simp add: thn_def outcome_bnd)

lemma after_thn:
  "after (thn m n w) =
     (case outcome (m w) of Inl ex \<Rightarrow> after (m w) | Inr x \<Rightarrow> after (n (after (m w))))"
  by (simp add: thn_def after_bnd)

lemma events_catch:
  "events (catch ex m h w) =
     events (m w) @ (if outcome (m w) = Inl ex then events (h (after (m w))) else [])"
  by (simp add: catch_def outcome_def after_def events_def split: prod.splits sum.splits)

lemma outcome_catch:
  "outcome (catch ex m h w) =
     (if outcome (m w) = Inl ex then outcome (h (after (m w))) else outcome (m w))"
  by (simp add: catch_def outcome_def after_def split: prod.splits sum.splits)

lemma after_catch:
  "after (catch ex m h w) =
     (if outcome (m w) = Inl ex then after (h (after (m w))) else after (m w))"
  by (simp add: catch_def outcome_def after_def split: prod.splits sum.splits)

lemma events_prim: "events (prim c enc f w) = [(c, map_sum id enc (fst (f w)))]"
  by (simp add: prim_def split: prod.splits)

lemma outcome_prim: "outcome (prim c enc f w) = fst (f w)"
  by (simp add: prim_def split: prod.splits)

lemma after_prim: "after (prim c enc f w) = snd (f w)"
  by (simp add: prim_def split: prod.splits)

lemma events_sleep [simp]: "events (sleep e n w) = [(Sleep n, Inr RUnit)]"
  by (simp add: sleep_def)

lemma outcome_sleep [simp]: "outcome (sleep e n w) = Inr ()"
  by (simp add: sleep_def)

lemma after_sleep [simp]: "after (sleep e n w) = elapse e n w"
  by (simp add: sleep_def)

lemma pass_captcha_loop_unfold:
  "pass_captcha_loop e case_type idx =
     bnd (is_visible e (First (Loc CLOSE))) (\<lambda>visible.
       if visible \<and> idx < MAX_ITERATIONS then
         thn (pass_captcha_body e case_type) (pass_captcha_loop e case_type (idx + 1))
       else ret idx)"
  apply (rule ext)
  apply (subst pass_captcha_loop.simps)
  apply (simp add: bnd_def thn_def split: prod.splits sum.splits)
  done

lemma emitsI: "(\<And>w. list_all P (events (m w))) \<Longrightarrow> emits P m"
  by (simp add: emits_def)

lemma emitsD: "emits P m \<Longrightarrow> list_all P (events (m w))"
  by (simp add: emits_def)

lemma emits_ret [intro!, simp]: "emits P (ret x)"
  by (simp add: emits_def)

lemma emits_raise [intro!, simp]: "emits P (raise ex)"
  by (simp add: emits_def)

lemma emits_lift [intro!, simp]: "emits P (lift r)"
  by (simp add: emits_def)

lemma emits_emit: "P (c, Inr RUnit) \<Longrightarrow> emits P (emit c)"
  by (simp add: emits_def)

lemma emits_prim: "(\<And>r. P (c, r)) \<Longrightarrow> emits P (prim c enc f)"
  by (simp add: emits_def events_prim)

lemma emits_sleep: "P (Sleep n, Inr RUnit) \<Longrightarrow> emits P (sleep e n)"
  by (simp add: emits_def)

lemma emits_bnd: "emits P m \<Longrightarrow> (\<And>x. emits P (f x)) \<Longrightarrow> emits P (bnd m f)"
  by (auto simp: emits_def events_bnd split: sum.splits)

lemma emits_thn: "emits P m \<Longrightarrow> emits P n \<Longrightarrow> emits P (thn m n)"
  by (simp add: thn_def emits_bnd)

lemma emits_catch: "emits P m \<Longrightarrow> emits P h \<Longrightarrow> emits P (catch ex m h)"
  by (auto simp: emits_def events_catch)

lemma emits_if: "emits P m \<Longrightarrow> emits P n \<Longrightarrow> emits P (if b then m else n)"
  by simp

lemma emits_unit_call: "(\<And>r. P (c, r)) \<Longrightarrow> emits P (unit_call e c)"
  by (simp add: unit_call_def emits_prim)

lemma emits_click: "(\<And>r. P (Click l, r)) \<Longrightarrow> emits P (click e l)"
  by (simp add: click_def emits_unit_call)

lemma emits_fill: "(\<And>r. P (Fill l v, r)) \<Longrightarrow> emits P (fill e l v)"
  by (simp add: fill_def emits_unit_call)

lemma emits_evaluate: "(\<And>r. P (Evaluate js, r)) \<Longrightarrow> emits P (evaluate e js)"
  by (simp add: evaluate_def emits_prim)

lemma emits_is_visible: "(\<And>r. P (IsVisible l, r)) \<Longrightarrow> emits P (is_visible e l)"
  by (simp add: is_visible_def emits_prim)

lemma emits_print: "P (Print s, Inr RUnit) \<Longrightarrow> emits P (print s)"
  by (simp add: print_def emits_emit)

lemma emits_download_image:
  "(\<And>r. P (Evaluate IMG_TO_CANVAS_JS, r)) \<Longrightarrow> emits P (download_image e)"
  unfolding download_image_def
  by (intro emits_bnd emits_evaluate) (auto split: list.splits)

lemma emits_solve_captcha:
  "(\<And>r. P (Evaluate IMG_TO_CANVAS_JS, r)) \<Longrightarrow>
   P (Print ''[ERROR]: Invalid Image format found'', Inr RUnit) \<Longrightarrow> emits P (solve_captcha e)"
  unfolding solve_captcha_def
  by (intro emits_catch emits_bnd emits_thn emits_download_image emits_print emits_lift emits_ret)

lemma emits_fill_value:
  "(\<And>v r. P (Fill (Loc node) v, r)) \<Longrightarrow>
   P (Print ''[ERROR]: Failed to fill input'', Inr RUnit) \<Longrightarrow> emits P (fill_value e node v)"
  unfolding fill_value_def
  by (intro emits_catch emits_thn emits_fill emits_print)

lemma iterations_append [simp]: "iterations (a @ b) = iterations a + iterations b"
  by (simp add: iterations_def)

lemma iterations_none:
  "list_all (\<lambda>ev. fst ev \<noteq> Click (First (Loc CLOSE))) t \<Longrightarrow> iterations t = 0"
  by (induction t) (auto simp: iterations_def)

lemma emits_body_rest:
  "emits (\<lambda>ev. fst ev \<noteq> Click (First (Loc CLOSE)))
     (thn (click e (Loc REFRESH))
     (thn (sleep e 2)
     (thn (bnd (solve_captcha e) (fill_value e CAPTCHA_CODE))
     (thn (click e (Loc (case_value case_type)))
          (sleep e 2)))))"
  by (intro emits_thn emits_bnd emits_click emits_sleep emits_solve_captcha emits_fill_value) simp_all

lemma iterations_Nil [simp]: "iterations [] = 0"
  by (simp add: iterations_def)

lemma iterations_body: "iterations (events (pass_captcha_body e case_type w)) = 1"
proof -
  have c: "iterations (events (click e (First (Loc CLOSE)) w)) = 1"
    by (simp add: click_def unit_call_def events_prim iterations_def)
  show ?thesis
    unfolding pass_captcha_body_def
    by (subst events_thn)
       (simp add: c iterations_none[OF emitsD[OF emits_body_rest]] split: sum.splits)
qed

lemma iterations_is_visible: "iterations (events (is_visible e l w)) = 0"
  by (simp add: is_visible_def events_prim iterations_def)

lemma iterations_step:
  "iterations (events (thn (pass_captcha_body e case_type) n w)) =
     1 + (case outcome (pass_captcha_body e case_type w) of Inl ex \<Rightarrow> 0
          | Inr u \<Rightarrow> iterations (events (n (after (pass_captcha_body e case_type w)))))"
  by (simp add: events_thn iterations_body split: sum.splits)

lemma iterations_loop:
  "iterations (events (pass_captcha_loop e case_type idx w)) \<le> MAX_ITERATIONS - idx"
proof (induction "MAX_ITERATIONS - idx" arbitrary: idx w)
  case 0
  then have "\<not> idx < MAX_ITERATIONS" by simp
  then show ?case
    by (subst pass_captcha_loop_unfold)
       (simp add: events_bnd iterations_is_visible split: sum.splits)
next
  case (Suc k)
  then have lt: "idx < MAX_ITERATIONS" and k: "k = MAX_ITERATIONS - (idx + 1)" by simp_all
  have ih: "\<And>w'. iterations (events (pass_captcha_loop e case_type (Suc idx) w')) \<le> k"
    using Suc.hyps(1)[OF k] k by simp
  have "iterations (events (pass_captcha_loop e case_type idx w)) \<le> Suc k"
    apply (subst pass_captcha_loop_unfold)
    apply (simp only: events_bnd iterations_append iterations_is_visible)
    apply (simp add: lt iterations_step ih split: sum.splits)
    done
  then show ?case using Suc.hyps(2) by simp
qed


lemma counter_loop:
  "outcome (pass_captcha_loop e case_type idx w) = Inr idx' \<Longrightarrow>
   idx' = idx + iterations (events (pass_captcha_loop e case_type idx w))"
proof (induction "MAX_ITERATIONS - idx" arbitrary: idx w)
  case 0
  then have "\<not> idx < MAX_ITERATIONS" by simp
  with 0(2) show ?case
    by (subst pass_captcha_loop_unfold, subst (asm) pass_captcha_loop_unfold)
       (auto simp: events_bnd outcome_bnd iterations_is_visible split: sum.splits)
next
  case (Suc k)
  then have lt: "idx < MAX_ITERATIONS" and k: "k = MAX_ITERATIONS - Suc idx" by simp_all
  note ih = Suc.hyps(1)[OF k]
  from Suc.prems show ?case
    apply (subst pass_captcha_loop_unfold)
    apply (subst (asm) pass_captcha_loop_unfold)
    apply (simp only: events_bnd outcome_bnd iterations_append iterations_is_visible)
    apply (auto simp: lt iterations_step outcome_thn dest!: ih split: sum.splits if_splits)
    done
qed

lemmas run_defs = bnd_def thn_def catch_def prim_def unit_call_def click_def fill_def
  is_visible_def evaluate_def sleep_def print_def solve_captcha_def download_image_def
  fill_value_def pass_captcha_body_def pass_captcha_def

section \<open>The export loop of get_pdfs\<close>

lemma map_filter_append [simp]:
  "List.map_filter f (xs @ ys) = List.map_filter f xs @ List.map_filter f ys"
  by (simp add: List.map_filter_def)

lemmas log_defs = yields_def cnr_reads_def pdf_paths_def fs_calls_def row_clicks_def
  rows_done_def links_found_def reported_def

lemmas of_defs = yield_of_def cnr_of_def pdf_of_def fs_of_def row_of_def done_of_def
  found_of_def is_print_def

lemma log_append [simp]:
  "yields (a @ b) = yields a @ yields b"
  "cnr_reads (a @ b) = cnr_reads a @ cnr_reads b"
  "pdf_paths (a @ b) = pdf_paths a @ pdf_paths b"
  "fs_calls (a @ b) = fs_calls a @ fs_calls b"
  "row_clicks (a @ b) = row_clicks a @ row_clicks b"
  "rows_done (a @ b) = rows_done a + rows_done b"
  "links_found (a @ b) = links_found a + links_found b"
  "reported (a @ b) = (reported a \<or> reported b)"
  by (simp_all add: log_defs)

lemma log_Nil [simp]:
  "yields [] = []" "cnr_reads [] = []" "pdf_paths [] = []" "fs_calls [] = []"
  "row_clicks [] = []" "rows_done [] = 0" "links_found [] = 0" "\<not> reported []"
  by (simp_all add: log_defs)

lemmas prim_events = events_prim click_def unit_call_def inner_text_def pdf_def
  wait_for_load_state_def yield_def makedirs_def print_def

lemmas prim_outcomes = outcome_prim

lemma export_row_log:
  fixes e :: "'w env" and parent :: path
  defines "g \<equiv> \<lambda>name. absolute (cwd e) (joinpath parent [pdf_name name])"
    and "f \<equiv> \<lambda>name. Dict name (str_path (joinpath parent [pdf_name name]))"
  shows "row_clicks (events (export_row e parent (Nth (Loc VIEW) i) w)) = [i]"
    and "pdf_paths (events (export_row e parent (Nth (Loc VIEW) i) w)) =
           map g (cnr_reads (events (export_row e parent (Nth (Loc VIEW) i) w)))"
    and "fs_calls (events (export_row e parent (Nth (Loc VIEW) i) w)) =
           map Pdf (pdf_paths (events (export_row e parent (Nth (Loc VIEW) i) w)))"
    and "length (cnr_reads (events (export_row e parent (Nth (Loc VIEW) i) w))) \<le> 1"
    and "yields (events (export_row e parent (Nth (Loc VIEW) i) w)) =
           (if outcome (export_row e parent (Nth (Loc VIEW) i) w) = Inr ()
            then map f (cnr_reads (events (export_row e parent (Nth (Loc VIEW) i) w))) else [])"
    and "outcome (export_row e parent (Nth (Loc VIEW) i) w) = Inr () \<Longrightarrow>
           length (cnr_reads (events (export_row e parent (Nth (Loc VIEW) i) w))) = 1"
    and "rows_done (events (export_row e parent (Nth (Loc VIEW) i) w)) =
           length (yields (events (export_row e parent (Nth (Loc VIEW) i) w)))"
    and "\<not> reported (events (export_row e parent (Nth (Loc VIEW) i) w))"
    and "links_found (events (export_row e parent (Nth (Loc VIEW) i) w)) = 0"
  unfolding g_def f_def export_row_def
  by (simp_all add: events_thn events_bnd outcome_thn outcome_bnd prim_events outcome_prim
        log_defs of_defs after_thn after_bnd after_prim
        split: sum.splits)


lemma rows_from_Suc: "map (Nth l) [i..<i + Suc k] = Nth l i # map (Nth l) [Suc i..<Suc i + k]"
  by (simp add: upt_conv_Cons)

lemma upt_shift: "i # [Suc i..<Suc i + n] = [i..<i + Suc n]"
  by (simp add: upt_conv_Cons)

lemma export_records_log:
  fixes e :: "'w env" and parent :: path
  defines "g \<equiv> \<lambda>name. absolute (cwd e) (joinpath parent [pdf_name name])"
    and "f \<equiv> \<lambda>name. Dict name (str_path (joinpath parent [pdf_name name]))"
  shows "let r = export_records e parent (map (Nth (Loc VIEW)) [i..<i + k]) w; t = events r in
           row_clicks t = [i..<i + length (row_clicks t)]
         \<and> length (row_clicks t) \<le> k
         \<and> pdf_paths t = map g (cnr_reads t)
         \<and> fs_calls t = map Pdf (pdf_paths t)
         \<and> yields t = map f (take (length (yields t)) (cnr_reads t))
         \<and> length (yields t) \<le> length (cnr_reads t)
         \<and> length (cnr_reads t) \<le> length (row_clicks t)
         \<and> length (row_clicks t) \<le> Suc (length (yields t))
         \<and> rows_done t = length (yields t)
         \<and> (outcome r = Inr () \<longrightarrow> length (yields t) = k)
         \<and> \<not> reported t \<and> links_found t = 0"
proof (induction k arbitrary: i w)
  case 0
  show ?case by simp
next
  case (Suc k)
  let ?row = "export_row e parent (Nth (Loc VIEW) i) w"
  let ?rest = "export_records e parent (map (Nth (Loc VIEW)) [Suc i..<Suc i + k]) (after ?row)"
  note row = export_row_log[of e parent i w, folded g_def f_def]
  note ih = Suc.IH[of "Suc i" "after ?row", unfolded Let_def]
  show ?case
  proof (cases "outcome ?row")
    case (Inl ex)
    then have ev: "events (export_records e parent (map (Nth (Loc VIEW)) [i..<i + Suc k]) w)
                     = events ?row"
      and out: "outcome (export_records e parent (map (Nth (Loc VIEW)) [i..<i + Suc k]) w)
                     = Inl ex"
      by (simp_all only: rows_from_Suc export_records.simps events_thn outcome_thn sum.case
            append_Nil2)
    from Inl row show ?thesis
      unfolding Let_def ev out
      by (auto simp: le_Suc_eq)
  next
    case (Inr u)
    then have ev: "events (export_records e parent (map (Nth (Loc VIEW)) [i..<i + Suc k]) w)
                     = events ?row @ events ?rest"
      and out: "outcome (export_records e parent (map (Nth (Loc VIEW)) [i..<i + Suc k]) w)
                     = outcome ?rest"
      by (simp_all only: rows_from_Suc export_records.simps events_thn outcome_thn sum.case)
    from Inr have ok: "outcome ?row = Inr ()" by simp
    have one: "length (cnr_reads (events ?row)) = 1" by (rule row(6)[OF ok])
    then obtain name where nm: "cnr_reads (events ?row) = [name]"
      by (cases "cnr_reads (events ?row)") auto
    have y: "yields (events ?row) = [f name]" using row(5) ok nm by simp
    have rc: "row_clicks (events ?rest) = [Suc i..<Suc i + length (row_clicks (events ?rest))]"
      using ih by simp
    have rc': "row_clicks (events ?row @ events ?rest)
                 = [i..<i + length (row_clicks (events ?row @ events ?rest))]"
      using rc row(1) upt_shift[of i "length (row_clicks (events ?rest))"] by simp
    show ?thesis
      unfolding Let_def ev out
      apply (intro conjI)
      subgoal by (rule rc')
      subgoal using ih row(1) by simp
      subgoal using ih row(2) by simp
      subgoal using ih row(3) by simp
      subgoal using ih y nm by simp
      subgoal using ih y nm by simp
      subgoal using ih nm row(1) by simp
      subgoal using ih y row(1) by simp
      subgoal using ih row(7) by simp
      subgoal using ih y by simp
      subgoal using ih row(8) by simp
      subgoal using ih row(9) by simp
      done
  qed
qed


lemma events_all_loc:
  "events (all_loc e l w) = [(All l, map_sum id RNat (fst (ask_count e (All l) w)))]"
  by (simp add: all_loc_def events_bnd events_prim outcome_prim split: sum.splits)

lemma outcome_all_loc:
  "outcome (all_loc e l w) = map_sum id (\<lambda>n. map (Nth l) [0..<n]) (fst (ask_count e (All l) w))"
  by (cases "fst (ask_count e (All l) w)") (simp_all add: all_loc_def outcome_bnd outcome_prim)

lemma after_all_loc: "after (all_loc e l w) = snd (ask_count e (All l) w)"
  by (cases "fst (ask_count e (All l) w)")
     (simp_all add: all_loc_def after_bnd outcome_prim after_prim)

lemma log_Cons [simp]:
  "yields ((Sleep n, r) # t) = yields t" "yields ((All l, r) # t) = yields t"
  "yields ((Makedirs p, r) # t) = yields t" "yields ((Print s, r) # t) = yields t"
  "cnr_reads ((Sleep n, r) # t) = cnr_reads t" "cnr_reads ((All l, r) # t) = cnr_reads t"
  "cnr_reads ((Makedirs p, r) # t) = cnr_reads t" "cnr_reads ((Print s, r) # t) = cnr_reads t"
  "pdf_paths ((Sleep n, r) # t) = pdf_paths t" "pdf_paths ((All l, r) # t) = pdf_paths t"
  "pdf_paths ((Makedirs p, r) # t) = pdf_paths t" "pdf_paths ((Print s, r) # t) = pdf_paths t"
  "fs_calls ((Sleep n, r) # t) = fs_calls t" "fs_calls ((All l, r) # t) = fs_calls t"
  "fs_calls ((Makedirs p, r) # t) = Makedirs p # fs_calls t"
  "fs_calls ((Print s, r) # t) = fs_calls t"
  "row_clicks ((Sleep n, r) # t) = row_clicks t" "row_clicks ((All l, r) # t) = row_clicks t"
  "row_clicks ((Makedirs p, r) # t) = row_clicks t"
  "row_clicks ((Print s, r) # t) = row_clicks t"
  "rows_done ((Sleep n, r) # t) = rows_done t" "rows_done ((All l, r) # t) = rows_done t"
  "rows_done ((Makedirs p, r) # t) = rows_done t" "rows_done ((Print s, r) # t) = rows_done t"
  "links_found ((Sleep n, r) # t) = links_found t"
  "links_found ((Makedirs p, r) # t) = links_found t"
  "links_found ((Print s, r) # t) = links_found t"
  "links_found ((All (Loc VIEW), Inr (RNat k)) # t) = k + links_found t"
  "links_found ((All l, Inl ex) # t) = links_found t"
  "reported ((Sleep n, r) # t) = reported t" "reported ((All l, r) # t) = reported t"
  "reported ((Makedirs p, r) # t) = reported t" "reported ((Print s, r) # t)"
  by (simp_all add: log_defs of_defs List.map_filter_simps)

text \<open>The three ways \<open>get_pdfs\<close> can go after its \<open>all()\<close> call.\<close>

lemma get_pdfs_all_raises:
  assumes "fst (ask_count e (All (Loc VIEW)) (elapse e 5 w)) = Inl ex"
  shows "events (get_pdfs e self state' dist court court_name w) =
           [(Sleep 5, Inr RUnit), (All (Loc VIEW), Inl ex)]"
    and "outcome (get_pdfs e self state' dist court court_name w) = Inl ex"
  using assms
  by (simp_all add: get_pdfs_def events_thn events_bnd outcome_thn outcome_bnd
        events_all_loc outcome_all_loc)

lemma get_pdfs_no_links:
  assumes "fst (ask_count e (All (Loc VIEW)) (elapse e 5 w)) = Inr 0"
  shows "events (get_pdfs e self state' dist court court_name w) =
           [(Sleep 5, Inr RUnit), (All (Loc VIEW), Inr (RNat 0))]"
    and "outcome (get_pdfs e self state' dist court court_name w) = Inr ()"
  using assms
  by (simp_all add: get_pdfs_def events_thn events_bnd outcome_thn outcome_bnd
        events_all_loc outcome_all_loc events_catch outcome_catch)

lemma get_pdfs_links:
  fixes e :: "'w env"
  defines "w1 \<equiv> \<lambda>w. snd (ask_count e (All (Loc VIEW)) (elapse e 5 w))"
  assumes "fst (ask_count e (All (Loc VIEW)) (elapse e 5 w)) = Inr n" and "0 < n"
  shows "events (get_pdfs e self state' dist court court_name w) =
           [(Sleep 5, Inr RUnit), (All (Loc VIEW), Inr (RNat n))] @
           events (catch TimeoutError
             (thn (makedirs e (pdf_parent self state' dist court court_name))
                (export_records e (pdf_parent self state' dist court court_name)
                   (map (Nth (Loc VIEW)) [0..<n])))
             (print (''[ERROR]: Failed to download pdf for State '' @ state' @ '' - District ''
                  @ dist @ '' - Court Complex '' @ court @ '' - Court name '' @ court_name))
             (w1 w))"
    and "outcome (get_pdfs e self state' dist court court_name w) =
           outcome (catch TimeoutError
             (thn (makedirs e (pdf_parent self state' dist court court_name))
                (export_records e (pdf_parent self state' dist court court_name)
                   (map (Nth (Loc VIEW)) [0..<n])))
             (print (''[ERROR]: Failed to download pdf for State '' @ state' @ '' - District ''
                  @ dist @ '' - Court Complex '' @ court @ '' - Court name '' @ court_name))
             (w1 w))"
  using assms(2,3) unfolding w1_def
  by (simp_all add: get_pdfs_def events_thn events_bnd outcome_thn outcome_bnd after_thn
        events_all_loc outcome_all_loc after_all_loc)


lemma run_print [simp]: "print s w = (Inr (), w, [(Print s, Inr RUnit)])"
  by (simp add: print_def)

lemma run_yield [simp]: "yield d w = (Inr (), w, [(Yield d, Inr RUnit)])"
  by (simp add: yield_def)

lemma get_pdfs_log:
  fixes e :: "'w env" and self :: WebScraper and state' dist court court_name :: string
  defines "parent \<equiv> pdf_parent self state' dist court court_name"
  defines "g \<equiv> \<lambda>name. absolute (cwd e) (joinpath parent [pdf_name name])"
    and "f \<equiv> \<lambda>name. Dict name (str_path (joinpath parent [pdf_name name]))"
  shows "let r = get_pdfs e self state' dist court court_name w; t = events r in
           row_clicks t = [0..<length (row_clicks t)]
         \<and> length (row_clicks t) \<le> links_found t
         \<and> pdf_paths t = map g (cnr_reads t)
         \<and> fs_calls t = (if links_found t = 0 then [] else Makedirs parent # map Pdf (pdf_paths t))
         \<and> yields t = map f (take (length (yields t)) (cnr_reads t))
         \<and> length (yields t) \<le> length (cnr_reads t)
         \<and> length (cnr_reads t) \<le> length (row_clicks t)
         \<and> length (row_clicks t) \<le> Suc (length (yields t))
         \<and> rows_done t = length (yields t)
         \<and> (outcome r = Inr () \<and> \<not> reported t \<longrightarrow> length (yields t) = links_found t)"
proof (cases "fst (ask_count e (All (Loc VIEW)) (elapse e 5 w))")
  case (Inl ex)
  show ?thesis
    unfolding Let_def get_pdfs_all_raises[OF Inl]
    by simp
next
  case (Inr n)
  show ?thesis
  proof (cases "n = 0")
    case True
    with Inr have z: "fst (ask_count e (All (Loc VIEW)) (elapse e 5 w)) = Inr 0" by simp
    show ?thesis
      unfolding Let_def get_pdfs_no_links[OF z]
      by simp
  next
    case False
    then have pos: "0 < n" by simp
    let ?w1 = "snd (ask_count e (All (Loc VIEW)) (elapse e 5 w))"
    let ?mk = "makedirs e parent ?w1"
    let ?recs = "export_records e parent (map (Nth (Loc VIEW)) [0..<n]) (after ?mk)"
    note links = get_pdfs_links[OF Inr pos, of self state' dist court court_name,
        folded parent_def]
    have mk_ev: "events ?mk = [(Makedirs parent, map_sum id (\<lambda>_. RUnit) (outcome ?mk))]"
      by (simp add: makedirs_def unit_call_def events_prim outcome_prim)
    note recs = export_records_log[of e parent 0 n "after ?mk", unfolded Let_def,
        folded g_def f_def, simplified]
    show ?thesis
    proof (cases "outcome ?mk")
      case (Inl ex)
      then show ?thesis
        unfolding Let_def links
        by (simp add: events_catch outcome_catch events_thn outcome_thn mk_ev pos)
    next
      case (Inr u)
      define T where "T = events ?recs"
      define R where "R = outcome ?recs"
      define msg where "msg = ''[ERROR]: Failed to download pdf for State '' @ state' @
          '' - District '' @ dist @ '' - Court Complex '' @ court @ '' - Court name '' @ court_name"
      from Inr have mk: "outcome ?mk = Inr ()" by simp
      have ev: "events (get_pdfs e self state' dist court court_name w) =
                  [(Sleep 5, Inr RUnit), (All (Loc VIEW), Inr (RNat n)),
                   (Makedirs parent, Inr RUnit)] @ T @
                  (if R = Inl TimeoutError then [(Print msg, Inr RUnit)] else [])"
        and out: "outcome (get_pdfs e self state' dist court court_name w) =
                  (if R = Inl TimeoutError then Inr () else R)"
        unfolding links T_def R_def msg_def
        by (simp_all add: events_catch outcome_catch events_thn outcome_thn after_thn mk_ev mk)
      note recs' = recs[folded T_def R_def]
      show ?thesis
      proof (cases "R = Inl TimeoutError")
        case True
        then show ?thesis
          unfolding Let_def ev out using recs' pos
          by simp
      next
        case False
        then show ?thesis
          unfolding Let_def ev out using recs' pos
          by simp
      qed
    qed
  qed
qed

lemma emits_inner_text: "(\<And>r. P (InnerText l, r)) \<Longrightarrow> emits P (inner_text e l)"
  by (simp add: inner_text_def emits_prim)

lemma emits_get_attribute: "(\<And>r. P (GetAttribute l a, r)) \<Longrightarrow> emits P (get_attribute e l a)"
  by (simp add: get_attribute_def emits_prim)

lemma emits_select_option: "(\<And>r. P (SelectOption l v, r)) \<Longrightarrow> emits P (select_option e l v)"
  by (simp add: select_option_def emits_unit_call)

lemma emits_pdf: "(\<And>r. P (Pdf p, r)) \<Longrightarrow> emits P (pdf e p)"
  by (simp add: pdf_def emits_unit_call)

lemma emits_makedirs: "(\<And>r. P (Makedirs p, r)) \<Longrightarrow> emits P (makedirs e p)"
  by (simp add: makedirs_def emits_unit_call)

lemma emits_goto: "(\<And>r. P (Goto u, r)) \<Longrightarrow> emits P (goto e u)"
  by (simp add: goto_def emits_unit_call)

lemma emits_wait_for_load_state:
  "(\<And>r. P (WaitForLoadState s, r)) \<Longrightarrow> emits P (wait_for_load_state e s)"
  by (simp add: wait_for_load_state_def emits_unit_call)

lemma emits_yield: "P (Yield d, Inr RUnit) \<Longrightarrow> emits P (yield d)"
  by (simp add: yield_def emits_emit)

lemma emits_all_loc: "(\<And>r. P (All l, r)) \<Longrightarrow> emits P (all_loc e l)"
  unfolding all_loc_def by (intro emits_bnd emits_prim emits_ret)

lemmas emits_intros = emits_bnd emits_thn emits_catch emits_ret emits_raise emits_lift
  emits_click emits_fill emits_sleep emits_print emits_yield emits_pdf emits_makedirs
  emits_inner_text emits_get_attribute emits_select_option emits_goto
  emits_wait_for_load_state emits_is_visible emits_evaluate emits_unit_call emits_all_loc
  emits_solve_captcha emits_fill_value

lemma emits_export_row:
  assumes "\<And>r. P (Click record, r)" "\<And>r. P (Click (Loc BACK), r)" "P (Sleep 5, Inr RUnit)"
    "\<And>r. P (InnerText (First (Loc CNR_NUMBER)), r)" "\<And>p r. P (Pdf p, r)"
    "\<And>r. P (WaitForLoadState ''networkidle'', r)" "\<And>d. P (Yield d, Inr RUnit)"
  shows "emits P (export_row e parent record)"
  unfolding export_row_def
  by (intro emits_intros assms)

lemma emits_bnd_outcome:
  assumes "emits P m" and "\<And>w x. outcome (m w) = Inr x \<Longrightarrow> emits P (f x)"
  shows "emits P (bnd m f)"
  unfolding emits_def
proof
  fix w
  show "list_all P (events (bnd m f w))"
  proof (cases "outcome (m w)")
    case (Inl ex)
    then show ?thesis using emitsD[OF assms(1), of w] by (simp add: events_bnd)
  next
    case (Inr x)
    then show ?thesis
      using emitsD[OF assms(1), of w] emitsD[OF assms(2)[OF Inr], of "after (m w)"]
      by (simp add: events_bnd)
  qed
qed

lemma emits_export_records:
  assumes "\<And>x r. x \<in> set records \<Longrightarrow> P (Click x, r)" "\<And>r. P (Click (Loc BACK), r)"
    "P (Sleep 5, Inr RUnit)"
    "\<And>r. P (InnerText (First (Loc CNR_NUMBER)), r)" "\<And>p r. P (Pdf p, r)"
    "\<And>r. P (WaitForLoadState ''networkidle'', r)" "\<And>d. P (Yield d, Inr RUnit)"
  shows "emits P (export_records e parent records)"
  using assms(1)
proof (induction records)
  case Nil
  show ?case unfolding export_records.simps by (rule emits_ret)
next
  case (Cons x xs)
  have "emits P (export_row e parent x)"
    by (intro emits_export_row assms(2-7) Cons.prems) simp
  moreover have "emits P (export_records e parent xs)"
    by (rule Cons.IH) (simp add: Cons.prems)
  ultimately show ?case
    unfolding export_records.simps by (rule emits_thn)
qed

lemma no_all_in_rows:
  "(All l, r) \<notin> set (events (catch TimeoutError
       (thn (makedirs e parent) (export_records e parent records)) (print msg) w))"
proof -
  have "emits (\<lambda>ev. fst ev \<noteq> All l)
     (catch TimeoutError (thn (makedirs e parent) (export_records e parent records)) (print msg))"
    by (intro emits_catch emits_thn emits_makedirs emits_export_records emits_print) simp_all
  from emitsD[OF this, of w] show ?thesis
    by (auto simp: list_all_iff)
qed

lemma get_pdfs_empty:
  assumes "(All (Loc VIEW), Inr (RNat 0)) \<in> set (events (get_pdfs e self state dist court court_name w))"
  shows "events (get_pdfs e self state dist court court_name w) =
           [(Sleep 5, Inr RUnit), (All (Loc VIEW), Inr (RNat 0))]
         \<and> outcome (get_pdfs e self state dist court court_name w) = Inr ()"
proof (cases "fst (ask_count e (All (Loc VIEW)) (elapse e 5 w))")
  case (Inl ex)
  with assms show ?thesis
    by (simp add: get_pdfs_all_raises[OF Inl])
next
  case (Inr n)
  show ?thesis
  proof (cases "n = 0")
    case True
    with Inr have z: "fst (ask_count e (All (Loc VIEW)) (elapse e 5 w)) = Inr 0" by simp
    show ?thesis by (simp add: get_pdfs_no_links[OF z])
  next
    case False
    then have pos: "0 < n" by simp
    from assms False show ?thesis
      unfolding get_pdfs_links(1)[OF Inr pos]
      by (simp add: no_all_in_rows)
  qed
qed

text \<open>A run of \<open>get_pdfs\<close> as a sequence of finished rows.\<close>

lemma bnd_ok:
  assumes "outcome (bnd m f w) = Inr y"
  obtains x where "outcome (m w) = Inr x" "outcome (f x (after (m w))) = Inr y"
    "events (bnd m f w) = events (m w) @ events (f x (after (m w)))"
  using assms by (cases "outcome (m w)") (simp_all add: outcome_bnd events_bnd)

lemma thn_ok:
  assumes "outcome (thn m n w) = Inr y"
  obtains x where "outcome (m w) = Inr x" "outcome (n (after (m w))) = Inr y"
    "events (thn m n w) = events (m w) @ events (n (after (m w)))"
  using assms by (cases "outcome (m w)") (simp_all add: outcome_thn events_thn)

lemma unit_call_ok:
  "outcome (unit_call e c w) = Inr u \<Longrightarrow> events (unit_call e c w) = [(c, Inr RUnit)]"
  by (simp add: unit_call_def outcome_prim events_prim)

lemma inner_text_ok:
  "outcome (inner_text e l w) = Inr s \<Longrightarrow> events (inner_text e l w) = [(InnerText l, Inr (RStr s))]"
  by (simp add: inner_text_def outcome_prim events_prim)

lemma get_attribute_ok:
  "outcome (get_attribute e l a w) = Inr v \<Longrightarrow>
   events (get_attribute e l a w) = [(GetAttribute l a, Inr (RAttr v))]"
  by (simp add: get_attribute_def outcome_prim events_prim)

lemma export_row_ok:
  assumes "outcome (export_row e parent (Nth (Loc VIEW) i) w) = Inr ()"
  shows "\<exists>name. events (export_row e parent (Nth (Loc VIEW) i) w) = row_events e parent i name"
  using assms unfolding export_row_def row_events_def pdf_name_def
  by (auto elim!: thn_ok bnd_ok
        simp: click_def pdf_def wait_for_load_state_def unit_call_ok inner_text_ok)

lemma back_clicks_append [simp]: "back_clicks (a @ b) = back_clicks a + back_clicks b"
  by (simp add: back_clicks_def)

lemma back_clicks_Nil [simp]: "back_clicks [] = 0"
  by (simp add: back_clicks_def)

lemma back_clicks_row [simp]: "back_clicks (row_events e parent i name) = 1"
  by (simp add: back_clicks_def row_events_def back_of_def List.map_filter_simps VIEW_def BACK_def)

lemma export_row_backs:
  "length (yields (events (export_row e parent (Nth (Loc VIEW) i) w)))
     \<le> back_clicks (events (export_row e parent (Nth (Loc VIEW) i) w))"
  "back_clicks (events (export_row e parent (Nth (Loc VIEW) i) w))
     \<le> length (pdf_paths (events (export_row e parent (Nth (Loc VIEW) i) w)))"
  unfolding export_row_def
  by (simp_all add: events_thn events_bnd outcome_thn outcome_bnd prim_events outcome_prim
        log_defs of_defs after_thn after_bnd after_prim back_clicks_def back_of_def
        List.map_filter_simps VIEW_def BACK_def
        split: sum.splits)

lemma yields_row [simp]:
  "yields (row_events e parent i name) = [Dict name (str_path (joinpath parent [name @ ''.pdf'']))]"
  by (simp add: row_events_def log_defs of_defs List.map_filter_simps)

lemma yields_rows:
  "yields (rows_events e parent i names) =
     map (\<lambda>name. Dict name (str_path (joinpath parent [name @ ''.pdf'']))) names"
  by (induction names arbitrary: i) simp_all

lemma export_records_rows:
  "\<exists>names rest.
      events (export_records e parent (map (Nth (Loc VIEW)) [i..<i + k]) w)
        = rows_events e parent i names @ rest
    \<and> yields rest = [] \<and> length names \<le> k
    \<and> back_clicks rest \<le> length (pdf_paths rest) \<and> \<not> reported rest
    \<and> (outcome (export_records e parent (map (Nth (Loc VIEW)) [i..<i + k]) w) = Inr () \<longrightarrow>
         rest = [] \<and> length names = k)"
proof (induction k arbitrary: i w)
  case 0
  have "events (export_records e parent (map (Nth (Loc VIEW)) [i..<i + 0]) w)
          = rows_events e parent i [] @ []"
    by simp
  then show ?case by (intro exI[of _ "[]"]) simp
next
  case (Suc k)
  let ?row = "export_row e parent (Nth (Loc VIEW) i) w"
  let ?rest = "export_records e parent (map (Nth (Loc VIEW)) [Suc i..<Suc i + k]) (after ?row)"
  note row = export_row_log[of e parent i w]
  show ?case
  proof (cases "outcome ?row")
    case (Inl ex)
    then have ev: "events (export_records e parent (map (Nth (Loc VIEW)) [i..<i + Suc k]) w)
                     = events ?row"
      and out: "outcome (export_records e parent (map (Nth (Loc VIEW)) [i..<i + Suc k]) w)
                     = Inl ex"
      by (simp_all only: rows_from_Suc export_records.simps events_thn outcome_thn sum.case
            append_Nil2)
    have y: "yields (events ?row) = []" using row(5) Inl by simp
    show ?thesis
      unfolding ev out
      apply (rule exI[of _ "[]"], rule exI[of _ "events ?row"])
      using y export_row_backs(2)[of e parent i w] row(8) by simp
  next
    case (Inr u)
    then have ev: "events (export_records e parent (map (Nth (Loc VIEW)) [i..<i + Suc k]) w)
                     = events ?row @ events ?rest"
      and out: "outcome (export_records e parent (map (Nth (Loc VIEW)) [i..<i + Suc k]) w)
                     = outcome ?rest"
      by (simp_all only: rows_from_Suc export_records.simps events_thn outcome_thn sum.case)
    from Inr have ok: "outcome ?row = Inr ()" by simp
    from export_row_ok[OF ok] obtain name where
      nm: "events ?row = row_events e parent i name" by blast
    from Suc.IH[of "Suc i" "after ?row"] obtain names rest where
      ih: "events ?rest = rows_events e parent (Suc i) names @ rest"
        "yields rest = []" "length names \<le> k"
        "back_clicks rest \<le> length (pdf_paths rest)" "\<not> reported rest"
        "outcome ?rest = Inr () \<longrightarrow> rest = [] \<and> length names = k"
      by blast
    show ?thesis
      unfolding ev out
      apply (rule exI[of _ "name # names"], rule exI[of _ rest])
      using nm ih by simp
  qed
qed


lemma log_row [simp]:
  "cnr_reads (row_events e parent i name) = [name]"
  "pdf_paths (row_events e parent i name) = [absolute (cwd e) (joinpath parent [name @ ''.pdf''])]"
  "row_clicks (row_events e parent i name) = [i]"
  "rows_done (row_events e parent i name) = 1"
  "links_found (row_events e parent i name) = 0"
  "\<not> reported (row_events e parent i name)"
  by (simp_all add: row_events_def log_defs of_defs List.map_filter_simps)

lemma log_rows [simp]:
  "length (pdf_paths (rows_events e parent i names)) = length names"
  "back_clicks (rows_events e parent i names) = length names"
  "links_found (rows_events e parent i names) = 0"
  "\<not> reported (rows_events e parent i names)"
  by (induction names arbitrary: i) simp_all

lemma back_clicks_Cons [simp]:
  "back_clicks ((Sleep n, r) # t) = back_clicks t"
  "back_clicks ((All l, r) # t) = back_clicks t"
  "back_clicks ((Makedirs p, r) # t) = back_clicks t"
  "back_clicks ((Print s, r) # t) = back_clicks t"
  by (simp_all add: back_clicks_def back_of_def List.map_filter_simps)

lemma get_pdfs_rows:
  fixes e :: "'w env" and self :: WebScraper and state' dist court court_name :: string
  defines "parent \<equiv> pdf_parent self state' dist court court_name"
  shows "\<exists>pre names rest.
      events (get_pdfs e self state' dist court court_name w)
        = pre @ rows_events e parent 0 names @ rest
    \<and> list_all (\<lambda>ev. fst ev \<in> {Sleep 5, All (Loc VIEW), Makedirs parent}) pre
    \<and> yields rest = [] \<and> back_clicks rest \<le> length (pdf_paths rest)
    \<and> (outcome (get_pdfs e self state' dist court court_name w) = Inr ()
       \<and> \<not> reported (events (get_pdfs e self state' dist court court_name w)) \<longrightarrow>
         rest = []
       \<and> length names = links_found (events (get_pdfs e self state' dist court court_name w))
       \<and> pre = [(Sleep 5, Inr RUnit), (All (Loc VIEW), Inr (RNat (length names)))]
               @ (if names = [] then [] else [(Makedirs parent, Inr RUnit)]))"
proof (cases "fst (ask_count e (All (Loc VIEW)) (elapse e 5 w))")
  case (Inl ex)
  show ?thesis
    unfolding get_pdfs_all_raises[OF Inl]
    by (rule exI[of _ "[(Sleep 5, Inr RUnit), (All (Loc VIEW), Inl ex)]"], rule exI[of _ "[]"],
        rule exI[of _ "[]"]) simp
next
  case (Inr n)
  show ?thesis
  proof (cases "n = 0")
    case True
    with Inr have z: "fst (ask_count e (All (Loc VIEW)) (elapse e 5 w)) = Inr 0" by simp
    show ?thesis
      unfolding get_pdfs_no_links[OF z]
      by (rule exI[of _ "[(Sleep 5, Inr RUnit), (All (Loc VIEW), Inr (RNat 0))]"],
          rule exI[of _ "[]"], rule exI[of _ "[]"]) simp
  next
    case False
    then have pos: "0 < n" by simp
    let ?w1 = "snd (ask_count e (All (Loc VIEW)) (elapse e 5 w))"
    let ?mk = "makedirs e parent ?w1"
    let ?recs = "export_records e parent (map (Nth (Loc VIEW)) [0..<n]) (after ?mk)"
    note links = get_pdfs_links[OF Inr pos, of self state' dist court court_name,
        folded parent_def]
    have mk_ev: "events ?mk = [(Makedirs parent, map_sum id (\<lambda>_. RUnit) (outcome ?mk))]"
      by (simp add: makedirs_def unit_call_def events_prim outcome_prim)
    define msg where "msg = ''[ERROR]: Failed to download pdf for State '' @ state' @
        '' - District '' @ dist @ '' - Court Complex '' @ court @ '' - Court name '' @ court_name"
    show ?thesis
    proof (cases "outcome ?mk")
      case (Inl ex)
      have ev: "events (get_pdfs e self state' dist court court_name w) =
                  [(Sleep 5, Inr RUnit), (All (Loc VIEW), Inr (RNat n)),
                   (Makedirs parent, Inl ex)] @ rows_events e parent 0 [] @
                  (if ex = TimeoutError then [(Print msg, Inr RUnit)] else [])"
        and out: "outcome (get_pdfs e self state' dist court court_name w) =
                  (if ex = TimeoutError then Inr () else Inl ex)"
        unfolding links msg_def using Inl
        by (simp_all add: events_catch outcome_catch events_thn outcome_thn mk_ev)
      show ?thesis
        unfolding ev out
        apply (rule exI[of _ "[(Sleep 5, Inr RUnit), (All (Loc VIEW), Inr (RNat n)),
                   (Makedirs parent, Inl ex)]"], rule exI[of _ "[]"],
               rule exI[of _ "if ex = TimeoutError then [(Print msg, Inr RUnit)] else []"])
        by simp
    next
      case (Inr u)
      define R where "R = outcome ?recs"
      from Inr have mk: "outcome ?mk = Inr ()" by simp
      from export_records_rows[of e parent 0 n "after ?mk"] obtain names rest where
        rows: "events ?recs = rows_events e parent 0 names @ rest"
          "yields rest = []" "length names \<le> n"
          "back_clicks rest \<le> length (pdf_paths rest)" "\<not> reported rest"
          "R = Inr () \<longrightarrow> rest = [] \<and> length names = n"
        unfolding R_def by auto
      have ev: "events (get_pdfs e self state' dist court court_name w) =
                  [(Sleep 5, Inr RUnit), (All (Loc VIEW), Inr (RNat n)),
                   (Makedirs parent, Inr RUnit)] @ rows_events e parent 0 names @
                  (rest @ (if R = Inl TimeoutError then [(Print msg, Inr RUnit)] else []))"
        and out: "outcome (get_pdfs e self state' dist court court_name w) =
                  (if R = Inl TimeoutError then Inr () else R)"
        unfolding links R_def msg_def
        by (simp_all add: events_catch outcome_catch events_thn outcome_thn after_thn mk_ev mk
              rows(1))
      show ?thesis
        unfolding ev out
        apply (rule exI[of _ "[(Sleep 5, Inr RUnit), (All (Loc VIEW), Inr (RNat n)),
                   (Makedirs parent, Inr RUnit)]"], rule exI[of _ names],
               rule exI[of _ "rest @ (if R = Inl TimeoutError then [(Print msg, Inr RUnit)] else [])"])
        using rows(2-6) pos by auto
    qed
  qed
qed


lemma header_quiet:
  "list_all (\<lambda>ev. fst ev \<in> {Sleep n, All l, Makedirs p}) pre \<Longrightarrow>
   yields pre = [] \<and> back_clicks pre = 0 \<and> pdf_paths pre = []"
proof (induction pre)
  case Nil
  show ?case by simp
next
  case (Cons ev pre)
  obtain c r where ev: "ev = (c, r)" by (cases ev)
  from Cons show ?case unfolding ev by auto
qed

section \<open>Paths of the exported files\<close>

lemma split_on_no_sep: "c \<notin> set s \<Longrightarrow> split_on c s = [s]"
  by (induction s) auto

lemma root_of_no_slash: "CHR ''/'' \<notin> set s \<Longrightarrow> root_of s = ''''"
  by (cases s) (auto simp: root_of_def)

lemma parts_of_pdf:
  "CHR ''/'' \<notin> set name \<Longrightarrow> parts_of (name @ ''.pdf'') = [name @ ''.pdf'']"
proof -
  assume a: "CHR ''/'' \<notin> set name"
  then have "CHR ''/'' \<notin> set (name @ ''.pdf'')" by simp
  then have s: "split_on CHR ''/'' (name @ ''.pdf'') = [name @ ''.pdf'']"
    by (rule split_on_no_sep)
  have "length (name @ ''.pdf'') \<ge> 4" by simp
  then have n: "name @ ''.pdf'' \<noteq> ''''" "name @ ''.pdf'' \<noteq> ''.''"
    by auto
  show ?thesis
    unfolding parts_of_def s using n by simp
qed

lemma joinpath_pdf:
  "CHR ''/'' \<notin> set name \<Longrightarrow>
   joinpath parent [name @ ''.pdf''] = Path (root parent) (parts parent @ [name @ ''.pdf''])"
  by (simp add: joinpath_def join1_def root_of_no_slash parts_of_pdf)

lemma directly_in_pdf:
  "CHR ''/'' \<notin> set name \<Longrightarrow>
   directly_in (absolute c parent) (absolute c (joinpath parent [name @ ''.pdf'']))"
  by (simp add: joinpath_pdf absolute_def directly_in_def butlast_append)

section \<open>solve_captcha and broadcast\<close>

lemma solve_captcha_caught:
  assumes "outcome (download_image e w) = Inr data"
    and "image_open e data = Inl UnidentifiedImageError"
  shows "outcome (solve_captcha e w) = Inr ''''"
    and "events (solve_captcha e w) =
           events (download_image e w) @
           [(Print ''[ERROR]: Invalid Image format found'', Inr RUnit)]"
  using assms
  by (simp_all add: solve_captcha_def outcome_catch events_catch outcome_bnd events_bnd
        outcome_thn events_thn)

lemma sent_simps [simp]:
  "sent [] = []" "sent ((SendJson socket m, r) # t) = (socket, m) # sent t"
  "sent ((LogInfo s, r) # t) = sent t" "sent ((LogError s, r) # t) = sent t"
  "sent (a @ b) = sent a @ sent b"
  by (simp_all add: sent_def sent_of_def List.map_filter_simps)

lemma broadcast_absent:
  assumes "active_connections s idx = None"
  shows "broadcast send idx message s = (Inr (), s, [])"
  using assms by (simp add: broadcast_def catch_any_def)

lemma broadcast_present:
  assumes "active_connections s idx = Some socket"
  shows "active_connections (after (broadcast send idx message s)) = active_connections s"
    and "sent (events (broadcast send idx message s)) = [(socket, message)]"
  using assms
  by (auto simp: broadcast_def catch_any_def getitem_def bnd_def thn_def send_json_def
        log_info_def log_error_def split: prod.splits sum.splits)

section \<open>The entry points, part by part\<close>

lemma thn_assoc: "thn (thn a b) c = thn a (thn b c)"
  by (rule ext) (simp add: thn_def bnd_def split: prod.splits sum.splits)

lemma thn_bnd_assoc: "bnd (thn a b) f = thn a (bnd b f)"
  by (rule ext) (simp add: thn_def bnd_def split: prod.splits sum.splits)

lemma bnd_thn_assoc: "thn (bnd a f) c = bnd a (\<lambda>x. thn (f x) c)"
  by (rule ext) (simp add: thn_def bnd_def split: prod.splits sum.splits)

lemma begin_scrape_parts:
  "begin_scrape e self chosen_state chosen_dist chosen_court chosen_court_name chosen_date
       case_type =
     with_playwright e
      (thn (open_portal e self)
      (thn (select_chain e chosen_state chosen_dist chosen_court)
      (thn (fill_search e chosen_court_name chosen_date)
      (thn (click e (Loc (case_value case_type)))
      (thn (pass_captcha e case_type)
           (get_pdfs e self chosen_state chosen_dist chosen_court chosen_court_name))))))"
  unfolding begin_scrape_def open_portal_def select_chain_def fill_search_def
  by (simp only: thn_assoc)

lemma for_each_simps:
  "for_each f [] = ret ()"
  "for_each f (x # xs) = thn (f x) (for_each f xs)"
  by (simp_all add: for_each_def)

lemma scrape_courts_for_each:
  "scrape_courts e self chosen_state chosen_dist chosen_court chosen_date case_type court_names =
     for_each (\<lambda>name.
        thn (dismiss_modal e)
       (thn (submit_search e name chosen_date case_type)
       (thn (sleep e 3)
            (get_pdfs e self chosen_state chosen_dist chosen_court name)))) court_names"
proof (induction court_names)
  case Nil
  show ?case by (simp only: scrape_courts.simps for_each_simps)
next
  case (Cons name court_names)
  show ?case
    by (simp only: scrape_courts.simps for_each_simps Cons.IH submit_search_def
          fill_search_def thn_assoc)
qed

lemma begin_scrape_all_parts:
  "begin_scrape_all e self chosen_state chosen_dist chosen_court chosen_date case_type =
     begin_scrape_all_spec e self chosen_state chosen_dist chosen_court chosen_date case_type"
  unfolding begin_scrape_all_def begin_scrape_all_spec_def open_portal_def select_chain_def
    scrape_courts_for_each
  by (simp only: thn_assoc)

section \<open>The order of the form\<close>

lemmas selector_defs = STATE_def DIST_def COURT_def COURT_NAME_def DATE_def CAPTCHA_CODE_def
  REFRESH_def BACK_def CLOSE_def VIEW_def

lemma stage_chain [simp]:
  "stage ct (Click (Loc STATE)) = 1" "stage ct (Click (Loc DIST)) = 2"
  "stage ct (Click (Loc COURT)) = 3" "stage ct (Click (Loc COURT_NAME)) = 4"
  "stage ct (GetAttribute (GetByText (Loc (STATE @ '' option'')) name) a) = 1"
  "stage ct (GetAttribute (GetByText (Loc (DIST @ '' option'')) name) a) = 2"
  "stage ct (GetAttribute (GetByText (Loc (COURT @ '' option'')) name) a) = 3"
  "stage ct (GetAttribute (GetByText (Loc (COURT_NAME @ '' option'')) name) a) = 4"
  "stage ct (SelectOption (Loc STATE) v) = 1" "stage ct (SelectOption (Loc DIST) v) = 2"
  "stage ct (SelectOption (Loc COURT) v) = 3" "stage ct (SelectOption (Loc COURT_NAME) v) = 4"
  "stage ct (Fill (Loc DATE) s) = 5" "stage ct (Fill (Loc CAPTCHA_CODE) s) = 6"
  "stage ct (Click (Loc (case_value ct))) = 7"
  by (cases ct; simp add: stage_def select_stage_def option_stage_def selector_defs)+

lemma stage_other [simp]:
  "stage ct (Click (First l)) = 0" "stage ct (Click (Nth l i)) = 0"
  "stage ct (Click (Loc REFRESH)) = 0" "stage ct (Click (Loc BACK)) = 0"
  "stage ct (GetAttribute (Nth l i) a) = 0"
  "stage ct PlaywrightStart = 0" "stage ct (Launch h) = 0" "stage ct NewPage = 0"
  "stage ct (Goto u) = 0" "stage ct (WaitForLoadState s) = 0" "stage ct (Sleep n) = 0"
  "stage ct (IsVisible l) = 0" "stage ct (All l) = 0" "stage ct (InnerText l) = 0"
  "stage ct (Evaluate js) = 0" "stage ct (Pdf p) = 0" "stage ct (Makedirs p) = 0"
  "stage ct (Print s) = 0" "stage ct (Yield d) = 0" "stage ct PlaywrightStop = 0"
  by (cases ct; simp add: stage_def select_stage_def option_stage_def selector_defs)+

lemma form_steps_simps [simp]:
  "form_steps ct [] = []"
  "form_steps ct (a @ b) = form_steps ct a @ form_steps ct b"
  "form_steps ct (ev # t) =
     (if 0 < stage ct (fst ev) then [stage ct (fst ev)] else []) @ form_steps ct t"
  by (simp_all add: form_steps_def)

lemma form_steps_subset:
  "list_all (\<lambda>ev. stage ct (fst ev) \<in> insert 0 K) t \<Longrightarrow> set (form_steps ct t) \<subseteq> K"
  by (induction t) auto

lemma form_steps_silent:
  "list_all (\<lambda>ev. stage ct (fst ev) = 0) t \<Longrightarrow> form_steps ct t = []"
  by (induction t) auto

lemma sorted_single_value: "set xs \<subseteq> {k} \<Longrightarrow> sorted (xs :: nat list)"
  by (induction xs) auto

lemma in_order_silent:
  "emits (\<lambda>ev. stage ct (fst ev) = 0) m \<Longrightarrow> in_order ct {} m"
  by (simp add: in_order_def form_steps_silent[OF emitsD])

lemma in_order_single:
  assumes "emits (\<lambda>ev. stage ct (fst ev) \<in> {0, k}) m"
    and "\<And>w x. outcome (m w) = Inr x \<Longrightarrow> k \<in> set (form_steps ct (events (m w)))"
  shows "in_order ct {k} m"
proof -
  have sub: "set (form_steps ct (events (m w))) \<subseteq> {k}" for w
    using form_steps_subset[OF emitsD[OF assms(1)], of w] by simp
  show ?thesis
    unfolding in_order_def
    using sub sorted_single_value[OF sub] assms(2) by blast
qed

lemma in_order_bnd:
  assumes "in_order ct K1 m" and "\<And>x. in_order ct K2 (f x)"
    and "\<And>a b. a \<in> K1 \<Longrightarrow> b \<in> K2 \<Longrightarrow> a \<le> b"
  shows "in_order ct (K1 \<union> K2) (bnd m f)"
  unfolding in_order_def
proof (intro allI)
  fix w
  from assms(1) have m: "sorted (form_steps ct (events (m w)))"
    "set (form_steps ct (events (m w))) \<subseteq> K1"
    "\<And>x. outcome (m w) = Inr x \<Longrightarrow> set (form_steps ct (events (m w))) = K1"
    unfolding in_order_def by blast+
  show "sorted (form_steps ct (events (bnd m f w)))
      \<and> set (form_steps ct (events (bnd m f w))) \<subseteq> K1 \<union> K2
      \<and> ((\<exists>x. outcome (bnd m f w) = Inr x) \<longrightarrow>
           set (form_steps ct (events (bnd m f w))) = K1 \<union> K2)"
  proof (cases "outcome (m w)")
    case (Inl ex)
    then show ?thesis
      using m by (auto simp: events_bnd outcome_bnd)
  next
    case (Inr x)
    let ?n = "f x (after (m w))"
    from assms(2)[of x] have n: "sorted (form_steps ct (events ?n))"
      "set (form_steps ct (events ?n)) \<subseteq> K2"
      "\<And>y. outcome ?n = Inr y \<Longrightarrow> set (form_steps ct (events ?n)) = K2"
      unfolding in_order_def by blast+
    have le: "\<forall>a \<in> set (form_steps ct (events (m w))).
                \<forall>b \<in> set (form_steps ct (events ?n)). a \<le> b"
      using m(2) n(2) assms(3) by blast
    have s: "sorted (form_steps ct (events (m w)) @ form_steps ct (events ?n))"
      using m(1) n(1) le by (simp add: sorted_append)
    show ?thesis
      using Inr s m(2) m(3)[OF Inr] n(2) n(3)
      by (auto simp: events_bnd outcome_bnd)
  qed
qed

lemma in_order_thn:
  assumes "in_order ct K1 m" and "in_order ct K2 n"
    and "\<And>a b. a \<in> K1 \<Longrightarrow> b \<in> K2 \<Longrightarrow> a \<le> b"
  shows "in_order ct (K1 \<union> K2) (thn m n)"
  unfolding thn_def using assms by (intro in_order_bnd) auto

lemma emits_choose_option:
  assumes "\<And>r. P (Click (Loc parent), r)"
    "\<And>r. P (GetAttribute (GetByText (Loc (parent @ '' option'')) name) ''value'', r)"
    "\<And>v r. P (SelectOption (Loc parent) v, r)"
  shows "emits P (choose_option e parent name)"
  unfolding choose_option_def
  by (intro emits_intros assms)

lemma first_step_choose_option:
  "\<exists>r t. events (catch ex (choose_option e parent name) h w) = (Click (Loc parent), r) # t"
proof -
  have "\<exists>r t. events (choose_option e parent name w) = (Click (Loc parent), r) # t"
    unfolding choose_option_def
    by (subst events_thn) (simp add: click_def unit_call_def events_prim)
  then show ?thesis
    by (auto simp: events_catch)
qed

lemma first_step_in:
  assumes "\<exists>r t. events x = (c, r) # t" and "stage ct c = k" and "0 < k"
  shows "k \<in> set (form_steps ct (events x))"
  using assms by auto

lemma choose_state_in_order: "in_order ct {1} (choose_state e name)"
proof (rule in_order_single)
  show "emits (\<lambda>ev. stage ct (fst ev) \<in> {0, 1}) (choose_state e name)"
    unfolding choose_state_def
    by (intro emits_catch emits_choose_option emits_print) simp_all
  show "1 \<in> set (form_steps ct (events (choose_state e name w)))" for w
    unfolding choose_state_def by (rule first_step_in[OF first_step_choose_option]) simp_all
qed

lemma choose_district_in_order: "in_order ct {2} (choose_district e name)"
proof (rule in_order_single)
  show "emits (\<lambda>ev. stage ct (fst ev) \<in> {0, 2}) (choose_district e name)"
    unfolding choose_district_def
    by (intro emits_catch emits_choose_option emits_print) simp_all
  show "2 \<in> set (form_steps ct (events (choose_district e name w)))" for w
    unfolding choose_district_def by (rule first_step_in[OF first_step_choose_option]) simp_all
qed

lemma choose_complex_in_order: "in_order ct {3} (choose_complex e name)"
proof (rule in_order_single)
  show "emits (\<lambda>ev. stage ct (fst ev) \<in> {0, 3}) (choose_complex e name)"
    unfolding choose_complex_def
    by (intro emits_catch emits_choose_option emits_print) simp_all
  show "3 \<in> set (form_steps ct (events (choose_complex e name w)))" for w
    unfolding choose_complex_def by (rule first_step_in[OF first_step_choose_option]) simp_all
qed

lemma choose_name_in_order: "in_order ct {4} (choose_name e name)"
proof (rule in_order_single)
  show "emits (\<lambda>ev. stage ct (fst ev) \<in> {0, 4}) (choose_name e name)"
    unfolding choose_name_def
    by (intro emits_catch emits_choose_option emits_print) simp_all
  show "4 \<in> set (form_steps ct (events (choose_name e name w)))" for w
    unfolding choose_name_def by (rule first_step_in[OF first_step_choose_option]) simp_all
qed

lemma fill_date_in_order: "in_order ct {5} (fill e (Loc DATE) v)"
proof (rule in_order_single)
  show "emits (\<lambda>ev. stage ct (fst ev) \<in> {0, 5}) (fill e (Loc DATE) v)"
    by (intro emits_fill) simp
  show "5 \<in> set (form_steps ct (events (fill e (Loc DATE) v w)))" for w
    by (simp add: fill_def unit_call_def events_prim)
qed

lemma fill_value_date_in_order: "in_order ct {5} (fill_value e DATE v)"
proof (rule in_order_single)
  show "emits (\<lambda>ev. stage ct (fst ev) \<in> {0, 5}) (fill_value e DATE v)"
    by (intro emits_fill_value) simp_all
  show "5 \<in> set (form_steps ct (events (fill_value e DATE v w)))" for w
    by (simp add: fill_value_def events_catch events_thn fill_def unit_call_def events_prim)
qed

lemma fill_value_captcha_in_order: "in_order ct {6} (fill_value e CAPTCHA_CODE v)"
proof (rule in_order_single)
  show "emits (\<lambda>ev. stage ct (fst ev) \<in> {0, 6}) (fill_value e CAPTCHA_CODE v)"
    by (intro emits_fill_value) simp_all
  show "6 \<in> set (form_steps ct (events (fill_value e CAPTCHA_CODE v w)))" for w
    by (simp add: fill_value_def events_catch events_thn fill_def unit_call_def events_prim)
qed

lemma solve_captcha_in_order: "in_order ct {} (solve_captcha e)"
  by (rule in_order_silent) (intro emits_solve_captcha; simp)

lemma chain_in_order:
  "in_order ct {1, 2, 3, 4, 5, 6}
     (thn (select_chain e chosen_state chosen_dist chosen_court)
          (fill_search e name chosen_date))"
proof -
  have "in_order ct ({} \<union> {6}) (bnd (solve_captcha e) (fill_value e CAPTCHA_CODE))"
    by (intro in_order_bnd solve_captcha_in_order fill_value_captcha_in_order) simp
  then have c: "in_order ct {6} (bnd (solve_captcha e) (fill_value e CAPTCHA_CODE))" by simp
  have "in_order ct ({1} \<union> ({2} \<union> ({3} \<union> ({4} \<union> ({5} \<union> ({5} \<union> {6}))))))
     (thn (choose_state e chosen_state)
     (thn (choose_district e chosen_dist)
     (thn (choose_complex e chosen_court)
     (thn (choose_name e name)
     (thn (fill e (Loc DATE) chosen_date)
     (thn (fill_value e DATE chosen_date)
          (bnd (solve_captcha e) (fill_value e CAPTCHA_CODE))))))))"
    by (intro in_order_thn choose_state_in_order choose_district_in_order
          choose_complex_in_order choose_name_in_order fill_date_in_order
          fill_value_date_in_order c) auto
  moreover have "{1} \<union> ({2} \<union> ({3} \<union> ({4} \<union> ({5} \<union> ({5} \<union> {6})))))
      = {1, 2, 3, 4, 5, 6 :: nat}" by auto
  ultimately show ?thesis
    unfolding select_chain_def fill_search_def by (simp only: thn_assoc)
qed

lemma chain_then_submit:
  fixes u v s :: "nat list"
  assumes "sorted u" "set u \<subseteq> {1, 2, 3, 4, 5, 6}" "set v \<subseteq> {6, 7}"
    and "s = u \<or> (s = u @ 7 # v \<and> set u = {1, 2, 3, 4, 5, 6})"
  shows "sorted (takeWhile (\<lambda>k. k < 7) s)
       \<and> set (dropWhile (\<lambda>k. k < 7) s) \<subseteq> {6, 7}
       \<and> (7 \<in> set s \<longrightarrow> set (takeWhile (\<lambda>k. k < 7) s) = {1, 2, 3, 4, 5, 6})"
proof -
  have lt: "\<And>x. x \<in> set u \<Longrightarrow> x < 7" using assms(2) by auto
  have t1: "takeWhile (\<lambda>k. k < 7) u = u" using lt by (simp add: takeWhile_eq_all_conv)
  have d1: "dropWhile (\<lambda>k. k < 7) u = []" using lt by simp
  have t2: "takeWhile (\<lambda>k. k < 7) (u @ 7 # v) = u" using lt by (simp add: takeWhile_append2)
  have d2: "dropWhile (\<lambda>k. k < 7) (u @ 7 # v) = 7 # v" using lt by (simp add: dropWhile_append2)
  have n7: "7 \<notin> set u" using lt by auto
  from assms(4) show ?thesis
  proof
    assume "s = u"
    then show ?thesis using assms(1) n7 by (simp add: t1 d1)
  next
    assume "s = u @ 7 # v \<and> set u = {1, 2, 3, 4, 5, 6}"
    then show ?thesis using assms(1,3) by (simp add: t2 d2)
  qed
qed

lemma emits_pass_captcha_body:
  assumes "\<And>r. P (Click (First (Loc CLOSE)), r)" "\<And>r. P (Click (Loc REFRESH), r)"
    "P (Sleep 2, Inr RUnit)" "\<And>r. P (Evaluate IMG_TO_CANVAS_JS, r)"
    "P (Print ''[ERROR]: Invalid Image format found'', Inr RUnit)"
    "\<And>v r. P (Fill (Loc CAPTCHA_CODE) v, r)"
    "P (Print ''[ERROR]: Failed to fill input'', Inr RUnit)"
    "\<And>r. P (Click (Loc (case_value case_type)), r)"
  shows "emits P (pass_captcha_body e case_type)"
  unfolding pass_captcha_body_def
  by (intro emits_intros assms)

lemma emits_pass_captcha_loop:
  assumes "\<And>r. P (IsVisible (First (Loc CLOSE)), r)"
    "\<And>r. P (Click (First (Loc CLOSE)), r)" "\<And>r. P (Click (Loc REFRESH), r)"
    "P (Sleep 2, Inr RUnit)" "\<And>r. P (Evaluate IMG_TO_CANVAS_JS, r)"
    "P (Print ''[ERROR]: Invalid Image format found'', Inr RUnit)"
    "\<And>v r. P (Fill (Loc CAPTCHA_CODE) v, r)"
    "P (Print ''[ERROR]: Failed to fill input'', Inr RUnit)"
    "\<And>r. P (Click (Loc (case_value case_type)), r)"
  shows "emits P (pass_captcha_loop e case_type idx)"
proof (induction "MAX_ITERATIONS - idx" arbitrary: idx)
  case 0
  then have n: "\<not> idx < MAX_ITERATIONS" by simp
  show ?case
    by (subst pass_captcha_loop_unfold)
       (intro emits_bnd emits_is_visible assms, simp add: n)
next
  case (Suc k)
  then have k: "k = MAX_ITERATIONS - (idx + 1)" by simp
  note ih = Suc.hyps(1)[OF k]
  note body = emits_pass_captcha_body[of P case_type e, OF assms(2-9)]
  show ?case
    by (subst pass_captcha_loop_unfold)
       (intro emits_bnd emits_is_visible assms emits_if emits_thn body ih emits_ret)
qed

lemma emits_pass_captcha:
  assumes "\<And>r. P (IsVisible (First (Loc CLOSE)), r)"
    "\<And>r. P (Click (First (Loc CLOSE)), r)" "\<And>r. P (Click (Loc REFRESH), r)"
    "P (Sleep 2, Inr RUnit)" "\<And>r. P (Evaluate IMG_TO_CANVAS_JS, r)"
    "P (Print ''[ERROR]: Invalid Image format found'', Inr RUnit)"
    "\<And>v r. P (Fill (Loc CAPTCHA_CODE) v, r)"
    "P (Print ''[ERROR]: Failed to fill input'', Inr RUnit)"
    "\<And>r. P (Click (Loc (case_value case_type)), r)"
  shows "emits P (pass_captcha e case_type)"
  unfolding pass_captcha_def
  by (intro emits_bnd emits_pass_captcha_loop assms emits_if emits_raise emits_ret)

lemma emits_get_pdfs:
  assumes "\<And>i r. P (Click (Nth (Loc VIEW) i), r)" "\<And>r. P (Click (Loc BACK), r)"
    "P (Sleep 5, Inr RUnit)" "\<And>r. P (All (Loc VIEW), r)"
    "\<And>r. P (InnerText (First (Loc CNR_NUMBER)), r)" "\<And>p r. P (Pdf p, r)"
    "\<And>p r. P (Makedirs p, r)" "\<And>s. P (Print s, Inr RUnit)"
    "\<And>r. P (WaitForLoadState ''networkidle'', r)" "\<And>d. P (Yield d, Inr RUnit)"
  shows "emits P (get_pdfs e self state dist court court_name)"
  unfolding get_pdfs_def
proof (intro emits_thn emits_sleep assms emits_bnd_outcome emits_all_loc)
  fix w records
  assume "outcome (all_loc e (Loc VIEW) w) = Inr records"
  then obtain n where r: "records = map (Nth (Loc VIEW)) [0..<n]"
    by (cases "fst (ask_count e (All (Loc VIEW)) w)") (auto simp: outcome_all_loc)
  have rows: "emits P (export_records e (pdf_parent self state dist court court_name) records)"
    unfolding r by (intro emits_export_records assms) (auto simp: assms)
  show "emits P
     (catch TimeoutError
       (if records \<noteq> [] then
          thn (makedirs e (pdf_parent self state dist court court_name))
            (export_records e (pdf_parent self state dist court court_name) records)
        else ret ())
       (print (''[ERROR]: Failed to download pdf for State '' @ state @ '' - District ''
                  @ dist @ '' - Court Complex '' @ court @ '' - Court name '' @ court_name)))"
    by (intro emits_catch emits_if emits_thn emits_makedirs emits_print emits_ret rows assms)
qed

lemma emits_dismiss_modal:
  assumes "\<And>r. P (IsVisible (First (Loc CLOSE)), r)" "\<And>r. P (Click (First (Loc CLOSE)), r)"
  shows "emits P (dismiss_modal e)"
  unfolding dismiss_modal_def
  by (intro emits_bnd emits_is_visible emits_if emits_click emits_ret assms)

lemma emits_open_portal:
  assumes "\<And>h r. P (Launch h, r)" "\<And>r. P (NewPage, r)" "\<And>r. P (Goto LAW, r)"
    "\<And>r. P (WaitForLoadState ''networkidle'', r)" "P (Sleep 5, Inr RUnit)"
    "\<And>r. P (IsVisible (First (Loc CLOSE)), r)" "\<And>r. P (Click (First (Loc CLOSE)), r)"
  shows "emits P (open_portal e self)"
  unfolding open_portal_def
  by (intro emits_thn emits_unit_call emits_goto emits_wait_for_load_state emits_sleep
        emits_dismiss_modal assms)

lemma events_with_playwright:
  "events (with_playwright e body w) =
     (PlaywrightStart, map_sum id (\<lambda>_. RUnit) (fst (do_unit e PlaywrightStart w))) #
     (case fst (do_unit e PlaywrightStart w) of
        Inl ex \<Rightarrow> []
      | Inr u \<Rightarrow> events (body (snd (do_unit e PlaywrightStart w))) @
                 [(PlaywrightStop, Inr RUnit)])"
  by (simp add: with_playwright_def thn_def bnd_def unit_call_def prim_def
        split: prod.splits sum.splits)

lemma outcome_with_playwright:
  "outcome (with_playwright e body w) =
     (case fst (do_unit e PlaywrightStart w) of
        Inl ex \<Rightarrow> Inl ex
      | Inr u \<Rightarrow> outcome (body (snd (do_unit e PlaywrightStart w))))"
  by (simp add: with_playwright_def thn_def bnd_def unit_call_def prim_def
        split: prod.splits sum.splits)

lemma open_portal_silent: "form_steps ct (events (open_portal e self w)) = []"
  by (rule form_steps_silent[OF emitsD]) (intro emits_open_portal; simp)

lemma rest_steps:
  "set (form_steps ct (events (thn (pass_captcha e ct)
      (get_pdfs e self chosen_state chosen_dist chosen_court name) w))) \<subseteq> {6, 7}"
proof -
  have "emits (\<lambda>ev. stage ct (fst ev) \<in> insert 0 {6, 7})
     (thn (pass_captcha e ct) (get_pdfs e self chosen_state chosen_dist chosen_court name))"
    by (intro emits_thn emits_pass_captcha emits_get_pdfs; simp)
  from form_steps_subset[OF emitsD[OF this]] show ?thesis .
qed


lemma body_steps:
  fixes e :: "'w env" and self :: WebScraper and ct :: CaseType
    and chosen_state chosen_dist chosen_court name chosen_date :: string
  defines "A \<equiv> thn (select_chain e chosen_state chosen_dist chosen_court)
                    (fill_search e name chosen_date)"
    and "REST \<equiv> thn (pass_captcha e ct)
                    (get_pdfs e self chosen_state chosen_dist chosen_court name)"
  shows "\<exists>u v. sorted u \<and> set u \<subseteq> {1, 2, 3, 4, 5, 6} \<and> set v \<subseteq> {6, 7}
     \<and> (form_steps ct (events (thn (open_portal e self)
           (thn A (thn (click e (Loc (case_value ct))) REST)) w)) = u
        \<or> (form_steps ct (events (thn (open_portal e self)
           (thn A (thn (click e (Loc (case_value ct))) REST)) w)) = u @ 7 # v
           \<and> set u = {1, 2, 3, 4, 5, 6}))"
proof (cases "outcome (open_portal e self w)")
  case (Inl ex)
  then have "form_steps ct (events (thn (open_portal e self)
           (thn A (thn (click e (Loc (case_value ct))) REST)) w)) = []"
    by (simp add: events_thn open_portal_silent)
  then show ?thesis by (intro exI[of _ "[]"]) simp
next
  case (Inr x)
  let ?w1 = "after (open_portal e self w)"
  let ?u = "form_steps ct (events (A ?w1))"
  from chain_in_order[of ct e chosen_state chosen_dist chosen_court name chosen_date,
      folded A_def]
  have u: "sorted ?u" "set ?u \<subseteq> {1, 2, 3, 4, 5, 6}"
    "\<And>y. outcome (A ?w1) = Inr y \<Longrightarrow> set ?u = {1, 2, 3, 4, 5, 6}"
    unfolding in_order_def by blast+
  show ?thesis
  proof (cases "outcome (A ?w1)")
    case (Inl ex)
    with Inr have "form_steps ct (events (thn (open_portal e self)
           (thn A (thn (click e (Loc (case_value ct))) REST)) w)) = ?u"
      by (simp add: events_thn open_portal_silent)
    with u(1,2) show ?thesis by (intro exI[of _ ?u] exI[of _ "[]"]) simp
  next
    case Inr2: (Inr y)
    let ?w2 = "after (A ?w1)"
    let ?cl = "click e (Loc (case_value ct)) ?w2"
    let ?v = "case outcome ?cl of Inl ex \<Rightarrow> [] | Inr z \<Rightarrow> form_steps ct (events (REST (after ?cl)))"
    have v: "set ?v \<subseteq> {6, 7}"
      using rest_steps[of ct e self chosen_state chosen_dist chosen_court name "after ?cl",
          folded REST_def]
      by (cases "outcome ?cl") auto
    have cl: "form_steps ct (events ?cl) = [7]"
      by (simp add: click_def unit_call_def events_prim)
    have "form_steps ct (events (thn (open_portal e self)
           (thn A (thn (click e (Loc (case_value ct))) REST)) w)) = ?u @ 7 # ?v"
      using Inr Inr2 cl
      by (simp add: events_thn[of "open_portal e self"] events_thn[of A]
            events_thn[of "click e (Loc (case_value ct))"] open_portal_silent
            del: form_steps_simps(3) split: sum.splits)
    with u(1,2) u(3)[OF Inr2] v show ?thesis
      by (intro exI[of _ ?u] exI[of _ ?v]) simp
  qed
qed

lemma begin_scrape_steps:
  "\<exists>u v. sorted u \<and> set u \<subseteq> {1, 2, 3, 4, 5, 6} \<and> set v \<subseteq> {6, 7}
     \<and> (form_steps ct (events (begin_scrape e self chosen_state chosen_dist chosen_court name
            chosen_date ct w)) = u
        \<or> (form_steps ct (events (begin_scrape e self chosen_state chosen_dist chosen_court name
            chosen_date ct w)) = u @ 7 # v
           \<and> set u = {1, 2, 3, 4, 5, 6}))"
proof -
  let ?body = "thn (open_portal e self)
     (thn (thn (select_chain e chosen_state chosen_dist chosen_court)
               (fill_search e name chosen_date))
     (thn (click e (Loc (case_value ct)))
     (thn (pass_captcha e ct)
          (get_pdfs e self chosen_state chosen_dist chosen_court name))))"
  have bs: "begin_scrape e self chosen_state chosen_dist chosen_court name chosen_date ct =
      with_playwright e ?body"
    unfolding begin_scrape_parts by (simp only: thn_assoc)
  show ?thesis
  proof (cases "fst (do_unit e PlaywrightStart w)")
    case (Inl ex)
    then have "form_steps ct (events (begin_scrape e self chosen_state chosen_dist chosen_court
        name chosen_date ct w)) = []"
      unfolding bs by (simp add: events_with_playwright)
    then show ?thesis by (intro exI[of _ "[]"]) simp
  next
    case (Inr x)
    then have eq: "form_steps ct (events (begin_scrape e self chosen_state chosen_dist
        chosen_court name chosen_date ct w)) =
        form_steps ct (events (?body (snd (do_unit e PlaywrightStart w))))"
      unfolding bs by (simp add: events_with_playwright)
    show ?thesis
      unfolding eq by (rule body_steps)
  qed
qed

text \<open>The form in a run where nothing was reported, and the menus selected.\<close>

lemma thn_clean:
  assumes "outcome (thn m n w) = Inr y" "\<not> reported (events (thn m n w))"
  shows "\<exists>u. outcome (m w) = Inr u \<and> \<not> reported (events (m w))
     \<and> outcome (n (after (m w))) = Inr y \<and> \<not> reported (events (n (after (m w))))
     \<and> events (thn m n w) = events (m w) @ events (n (after (m w)))"
  using assms by (cases "outcome (m w)") (simp_all add: outcome_thn events_thn)

lemma bnd_clean:
  assumes "outcome (bnd m f w) = Inr y" "\<not> reported (events (bnd m f w))"
  shows "\<exists>x. outcome (m w) = Inr x \<and> \<not> reported (events (m w))
     \<and> outcome (f x (after (m w))) = Inr y \<and> \<not> reported (events (f x (after (m w))))
     \<and> events (bnd m f w) = events (m w) @ events (f x (after (m w)))"
  using assms by (cases "outcome (m w)") (simp_all add: outcome_bnd events_bnd)

lemma clean_choose:
  assumes "outcome (catch TimeoutError (choose_option e parent name) (print msg) w) = Inr u"
    and "\<not> reported (events (catch TimeoutError (choose_option e parent name) (print msg) w))"
  shows "\<exists>v. events (catch TimeoutError (choose_option e parent name) (print msg) w)
           = menu_events parent name v"
proof -
  let ?m = "choose_option e parent name w"
  have nt: "outcome ?m \<noteq> Inl TimeoutError"
    using assms(2) by (auto simp: events_catch)
  then have o: "outcome ?m = Inr u"
    and ev: "events (catch TimeoutError (choose_option e parent name) (print msg) w) = events ?m"
    using assms(1) by (simp_all add: outcome_catch events_catch)
  from o have "\<exists>v. events ?m = menu_events parent name v"
    unfolding choose_option_def menu_events_def
    by (auto elim!: thn_ok bnd_ok
          simp: click_def select_option_def unit_call_ok get_attribute_ok)
  then show ?thesis
    unfolding ev .
qed

lemma clean_fill_value:
  assumes "outcome (fill_value e node v w) = Inr u"
    and "\<not> reported (events (fill_value e node v w))"
  shows "events (fill_value e node v w)
           = [(Fill (Loc node) '''', Inr RUnit), (Fill (Loc node) v, Inr RUnit)]"
proof -
  let ?m = "thn (fill e (Loc node) '''') (fill e (Loc node) v) w"
  have nt: "outcome ?m \<noteq> Inl TimeoutError"
    using assms(2) by (auto simp: fill_value_def events_catch)
  then have o: "outcome ?m = Inr u"
    and ev: "events (fill_value e node v w) = events ?m"
    using assms(1) by (simp_all add: fill_value_def outcome_catch events_catch)
  from o have "events ?m = [(Fill (Loc node) '''', Inr RUnit), (Fill (Loc node) v, Inr RUnit)]"
    by (auto elim!: thn_ok simp: fill_def unit_call_ok)
  then show ?thesis
    unfolding ev .
qed

lemma form_events_simps [simp]:
  "form_events ct [] = []"
  "form_events ct (a @ b) = form_events ct a @ form_events ct b"
  "form_events ct (ev # t) = (if 0 < stage ct (fst ev) then [ev] else []) @ form_events ct t"
  by (simp_all add: form_events_def)

lemma form_events_silent:
  "list_all (\<lambda>ev. stage ct (fst ev) = 0) t \<Longrightarrow> form_events ct t = []"
  by (induction t) auto

lemma form_events_menu [simp]:
  "form_events ct (menu_events STATE name v) = menu_events STATE name v"
  "form_events ct (menu_events DIST name v) = menu_events DIST name v"
  "form_events ct (menu_events COURT name v) = menu_events COURT name v"
  "form_events ct (menu_events COURT_NAME name v) = menu_events COURT_NAME name v"
  by (simp_all add: menu_events_def)

lemma clean_chain:
  fixes e :: "'w env"
  assumes "outcome (thn (select_chain e chosen_state chosen_dist chosen_court)
               (fill_search e name chosen_date) w) = Inr y"
    and "\<not> reported (events (thn (select_chain e chosen_state chosen_dist chosen_court)
               (fill_search e name chosen_date) w))"
  shows "\<exists>v1 v2 v3 v4 code w2.
      outcome (solve_captcha e w2) = Inr code
    \<and> form_events ct (events (thn (select_chain e chosen_state chosen_dist chosen_court)
               (fill_search e name chosen_date) w)) =
        menu_events STATE chosen_state v1 @ menu_events DIST chosen_dist v2
        @ menu_events COURT chosen_court v3 @ menu_events COURT_NAME name v4
        @ [(Fill (Loc DATE) chosen_date, Inr RUnit),
           (Fill (Loc DATE) '''', Inr RUnit), (Fill (Loc DATE) chosen_date, Inr RUnit),
           (Fill (Loc CAPTCHA_CODE) '''', Inr RUnit), (Fill (Loc CAPTCHA_CODE) code, Inr RUnit)]"
proof -
  define R6 where "R6 = bnd (solve_captcha e) (fill_value e CAPTCHA_CODE)"
  define R5 where "R5 = thn (fill_value e DATE chosen_date) R6"
  define R4 where "R4 = thn (fill e (Loc DATE) chosen_date) R5"
  define R3 where "R3 = thn (choose_name e name) R4"
  define R2 where "R2 = thn (choose_complex e chosen_court) R3"
  define R1 where "R1 = thn (choose_district e chosen_dist) R2"
  have A: "thn (select_chain e chosen_state chosen_dist chosen_court)
               (fill_search e name chosen_date) = thn (choose_state e chosen_state) R1"
    unfolding select_chain_def fill_search_def R1_def R2_def R3_def R4_def R5_def R6_def
    by (simp only: thn_assoc)
  note h = assms[unfolded A]
  from thn_clean[OF h] obtain u1 where
    s1: "outcome (choose_state e chosen_state w) = Inr u1"
      "\<not> reported (events (choose_state e chosen_state w))"
    and r1: "outcome (R1 (after (choose_state e chosen_state w))) = Inr y"
      "\<not> reported (events (R1 (after (choose_state e chosen_state w))))"
    and e1: "events (thn (choose_state e chosen_state) R1 w) =
      events (choose_state e chosen_state w) @ events (R1 (after (choose_state e chosen_state w)))"
    by blast
  define w1 where "w1 = after (choose_state e chosen_state w)"
  from thn_clean[OF r1[unfolded R1_def]] obtain u2 where
    s2: "outcome (choose_district e chosen_dist w1) = Inr u2"
      "\<not> reported (events (choose_district e chosen_dist w1))"
    and r2: "outcome (R2 (after (choose_district e chosen_dist w1))) = Inr y"
      "\<not> reported (events (R2 (after (choose_district e chosen_dist w1))))"
    and e2: "events (R1 w1) =
      events (choose_district e chosen_dist w1) @ events (R2 (after (choose_district e chosen_dist w1)))"
    unfolding w1_def R1_def by blast
  define w2 where "w2 = after (choose_district e chosen_dist w1)"
  from thn_clean[OF r2[unfolded R2_def]] obtain u3 where
    s3: "outcome (choose_complex e chosen_court w2) = Inr u3"
      "\<not> reported (events (choose_complex e chosen_court w2))"
    and r3: "outcome (R3 (after (choose_complex e chosen_court w2))) = Inr y"
      "\<not> reported (events (R3 (after (choose_complex e chosen_court w2))))"
    and e3: "events (R2 w2) =
      events (choose_complex e chosen_court w2) @ events (R3 (after (choose_complex e chosen_court w2)))"
    unfolding w2_def R2_def by blast
  define w3 where "w3 = after (choose_complex e chosen_court w2)"
  from thn_clean[OF r3[unfolded R3_def]] obtain u4 where
    s4: "outcome (choose_name e name w3) = Inr u4"
      "\<not> reported (events (choose_name e name w3))"
    and r4: "outcome (R4 (after (choose_name e name w3))) = Inr y"
      "\<not> reported (events (R4 (after (choose_name e name w3))))"
    and e4: "events (R3 w3) =
      events (choose_name e name w3) @ events (R4 (after (choose_name e name w3)))"
    unfolding w3_def R3_def by blast
  define w4 where "w4 = after (choose_name e name w3)"
  from thn_clean[OF r4[unfolded R4_def]] obtain u5 where
    s5: "outcome (fill e (Loc DATE) chosen_date w4) = Inr u5"
    and r5: "outcome (R5 (after (fill e (Loc DATE) chosen_date w4))) = Inr y"
      "\<not> reported (events (R5 (after (fill e (Loc DATE) chosen_date w4))))"
    and e5: "events (R4 w4) =
      events (fill e (Loc DATE) chosen_date w4) @ events (R5 (after (fill e (Loc DATE) chosen_date w4)))"
    unfolding w4_def R4_def by blast
  define w5 where "w5 = after (fill e (Loc DATE) chosen_date w4)"
  from thn_clean[OF r5[unfolded R5_def]] obtain u6 where
    s6: "outcome (fill_value e DATE chosen_date w5) = Inr u6"
      "\<not> reported (events (fill_value e DATE chosen_date w5))"
    and r6: "outcome (R6 (after (fill_value e DATE chosen_date w5))) = Inr y"
      "\<not> reported (events (R6 (after (fill_value e DATE chosen_date w5))))"
    and e6: "events (R5 w5) =
      events (fill_value e DATE chosen_date w5) @ events (R6 (after (fill_value e DATE chosen_date w5)))"
    unfolding w5_def R5_def by blast
  define w6 where "w6 = after (fill_value e DATE chosen_date w5)"
  from bnd_clean[OF r6[unfolded R6_def]] obtain code where
    s7: "outcome (solve_captcha e w6) = Inr code"
    and r7: "outcome (fill_value e CAPTCHA_CODE code (after (solve_captcha e w6))) = Inr y"
      "\<not> reported (events (fill_value e CAPTCHA_CODE code (after (solve_captcha e w6))))"
    and e7: "events (R6 w6) =
      events (solve_captcha e w6) @ events (fill_value e CAPTCHA_CODE code (after (solve_captcha e w6)))"
    unfolding w6_def R6_def by blast
  from clean_choose[OF s1[unfolded choose_state_def]] obtain v1 where
    c1: "events (choose_state e chosen_state w) = menu_events STATE chosen_state v1"
    unfolding choose_state_def by blast
  from clean_choose[OF s2[unfolded choose_district_def]] obtain v2 where
    c2: "events (choose_district e chosen_dist w1) = menu_events DIST chosen_dist v2"
    unfolding choose_district_def by blast
  from clean_choose[OF s3[unfolded choose_complex_def]] obtain v3 where
    c3: "events (choose_complex e chosen_court w2) = menu_events COURT chosen_court v3"
    unfolding choose_complex_def by blast
  from clean_choose[OF s4[unfolded choose_name_def]] obtain v4 where
    c4: "events (choose_name e name w3) = menu_events COURT_NAME name v4"
    unfolding choose_name_def by blast
  have c5: "events (fill e (Loc DATE) chosen_date w4) = [(Fill (Loc DATE) chosen_date, Inr RUnit)]"
    using s5 by (simp add: fill_def unit_call_ok)
  note c6 = clean_fill_value[OF s6]
  have c7: "form_events ct (events (solve_captcha e w6)) = []"
    by (rule form_events_silent[OF emitsD]) (intro emits_solve_captcha; simp)
  note c8 = clean_fill_value[OF r7]
  have "form_events ct (events (thn (choose_state e chosen_state) R1 w)) =
        menu_events STATE chosen_state v1 @ menu_events DIST chosen_dist v2
        @ menu_events COURT chosen_court v3 @ menu_events COURT_NAME name v4
        @ [(Fill (Loc DATE) chosen_date, Inr RUnit),
           (Fill (Loc DATE) '''', Inr RUnit), (Fill (Loc DATE) chosen_date, Inr RUnit),
           (Fill (Loc CAPTCHA_CODE) '''', Inr RUnit), (Fill (Loc CAPTCHA_CODE) code, Inr RUnit)]"
    unfolding e1 w1_def[symmetric] e2 w2_def[symmetric] e3 w3_def[symmetric] e4 w4_def[symmetric]
      e5 w5_def[symmetric] e6 w6_def[symmetric] e7 c1 c2 c3 c4 c5 c6 c8
    by (simp add: c7)
  with s7 show ?thesis
    unfolding A by blast
qed

lemma stage_lt7:
  "set (form_steps ct t) \<subseteq> {1, 2, 3, 4, 5, 6} \<Longrightarrow> list_all (\<lambda>ev. stage ct (fst ev) < 7) t"
  by (induction t) (auto split: if_splits)

lemma no_click_steps:
  "list_all (\<lambda>ev. stage ct (fst ev) < 7) t \<Longrightarrow> 7 \<notin> set (form_steps ct t)"
  by (induction t) (auto split: if_splits)

lemma before_click_all:
  "list_all (\<lambda>ev. stage ct (fst ev) < 7) xs \<Longrightarrow> stage ct (fst y) = 7 \<Longrightarrow>
   before_click ct (xs @ y # zs) = xs"
  unfolding before_click_def
  by (subst takeWhile_append2) (simp_all add: list_all_iff)

lemma begin_scrape_before_click:
  fixes e :: "'w env" and chosen_state chosen_dist chosen_court name chosen_date :: string
  defines "A \<equiv> thn (select_chain e chosen_state chosen_dist chosen_court)
                    (fill_search e name chosen_date)"
  shows "7 \<notin> set (form_steps ct (events (begin_scrape e self chosen_state chosen_dist
            chosen_court name chosen_date ct w)))
     \<or> (\<exists>w0 w1 y. outcome (A w1) = Inr y
          \<and> before_click ct (events (begin_scrape e self chosen_state chosen_dist
               chosen_court name chosen_date ct w)) =
             (PlaywrightStart, Inr RUnit) # events (open_portal e self w0) @ events (A w1))"
proof -
  define REST where "REST = thn (pass_captcha e ct)
      (get_pdfs e self chosen_state chosen_dist chosen_court name)"
  define body where "body = thn (open_portal e self)
     (thn A (thn (click e (Loc (case_value ct))) REST))"
  let ?T = "events (begin_scrape e self chosen_state chosen_dist chosen_court name
      chosen_date ct w)"
  have bs: "begin_scrape e self chosen_state chosen_dist chosen_court name chosen_date ct =
      with_playwright e body"
    unfolding begin_scrape_parts body_def A_def REST_def by (simp only: thn_assoc)
  have o7: "list_all (\<lambda>ev. stage ct (fst ev) < 7) (events (open_portal e self w'))" for w'
    by (rule emitsD) (intro emits_open_portal; simp)
  have a7: "list_all (\<lambda>ev. stage ct (fst ev) < 7) (events (A w'))" for w'
  proof -
    from chain_in_order[of ct e chosen_state chosen_dist chosen_court name chosen_date,
        folded A_def]
    have "set (form_steps ct (events (A w'))) \<subseteq> {1, 2, 3, 4, 5, 6}"
      unfolding in_order_def by blast
    then show ?thesis by (rule stage_lt7)
  qed
  show ?thesis
  proof (cases "fst (do_unit e PlaywrightStart w)")
    case (Inl ex)
    then have "form_steps ct ?T = []"
      unfolding bs by (simp add: events_with_playwright)
    then show ?thesis by simp
  next
    case start: (Inr u)
    let ?w0 = "snd (do_unit e PlaywrightStart w)"
    have T: "?T = (PlaywrightStart, Inr RUnit) # events (body ?w0) @ [(PlaywrightStop, Inr RUnit)]"
      unfolding bs using start by (simp add: events_with_playwright)
    show ?thesis
    proof (cases "outcome (open_portal e self ?w0)")
      case (Inl ex)
      then have "events (body ?w0) = events (open_portal e self ?w0)"
        unfolding body_def by (simp add: events_thn)
      then have "list_all (\<lambda>ev. stage ct (fst ev) < 7) ?T"
        unfolding T using o7[of ?w0] by simp
      from no_click_steps[OF this] show ?thesis by blast
    next
      case op: (Inr u1)
      let ?w1 = "after (open_portal e self ?w0)"
      show ?thesis
      proof (cases "outcome (A ?w1)")
        case (Inl ex)
        then have "events (body ?w0) = events (open_portal e self ?w0) @ events (A ?w1)"
          unfolding body_def using op by (simp add: events_thn)
        then have "list_all (\<lambda>ev. stage ct (fst ev) < 7) ?T"
          unfolding T using o7[of ?w0] a7[of ?w1] by simp
        from no_click_steps[OF this] show ?thesis by blast
      next
        case a: (Inr y)
        let ?w2 = "after (A ?w1)"
        obtain r zs where cl: "events (thn (click e (Loc (case_value ct))) REST ?w2) =
            (Click (Loc (case_value ct)), r) # zs"
          by (simp add: events_thn click_def unit_call_def events_prim)
        have "events (body ?w0) = events (open_portal e self ?w0) @ events (A ?w1) @
            (Click (Loc (case_value ct)), r) # zs"
          unfolding body_def using op a cl by (simp add: events_thn)
        then have T': "?T = ((PlaywrightStart, Inr RUnit) # events (open_portal e self ?w0) @
            events (A ?w1)) @ (Click (Loc (case_value ct)), r) #
            (zs @ [(PlaywrightStop, Inr RUnit)])"
          unfolding T by simp
        have "before_click ct ?T =
            (PlaywrightStart, Inr RUnit) # events (open_portal e self ?w0) @ events (A ?w1)"
          unfolding T'
          by (rule before_click_all) (use o7[of ?w0] a7[of ?w1] in simp_all)
        with a show ?thesis by blast
      qed
    qed
  qed
qed

lemma selections_simps [simp]:
  "selections [] = []"
  "selections (a @ b) = selections a @ selections b"
  by (simp_all add: selections_def)

lemma selected_of_other:
  "(\<And>l v. c \<noteq> SelectOption l v) \<Longrightarrow> selected_of (c, r) = None"
  by (cases c) (auto simp: selected_of_def)

lemma selections_silent:
  "list_all (\<lambda>ev. selected_of ev = None) t \<Longrightarrow> selections t = []"
  by (induction t) (auto simp: selections_def List.map_filter_simps)

lemma selections_choose:
  "selections (events (catch TimeoutError (choose_option e parent name) (print msg) w)) = []
   \<or> (\<exists>v. selections (events (catch TimeoutError (choose_option e parent name) (print msg) w))
          = [(parent, v)])"
  unfolding choose_option_def
  by (auto simp: events_catch events_thn events_bnd click_def select_option_def
        get_attribute_def unit_call_def events_prim outcome_prim selections_def
        selected_of_def List.map_filter_simps split: sum.splits)

lemma select_stage_simps [simp]:
  "select_stage STATE = 1" "select_stage DIST = 2" "select_stage COURT = 3"
  "select_stage COURT_NAME = 4"
  by (simp_all add: select_stage_def selector_defs)

lemma select_stage_pos:
  "0 < select_stage sel \<Longrightarrow> sel \<in> {STATE, DIST, COURT, COURT_NAME}"
  by (auto simp: select_stage_def split: if_splits)

lemma picks_thn:
  assumes "\<And>w. selections (events (m w)) = [] \<or> (\<exists>v. selections (events (m w)) = [(sel, v)])"
    and "select_stage sel = k"
    and "\<And>w. sorted_wrt (<) (map (\<lambda>p. select_stage (fst p)) (selections (events (n w))))
          \<and> (\<forall>p \<in> set (selections (events (n w))). k < select_stage (fst p))"
  shows "sorted_wrt (<) (map (\<lambda>p. select_stage (fst p)) (selections (events (thn m n w))))
       \<and> (\<forall>p \<in> set (selections (events (thn m n w))). k \<le> select_stage (fst p))"
proof (cases "outcome (m w)")
  case (Inl ex)
  then show ?thesis
    using assms(1)[of w] assms(2) by (auto simp: events_thn)
next
  case (Inr x)
  then show ?thesis
    using assms(1)[of w] assms(2) assms(3)[of "after (m w)"]
    by (auto simp: events_thn sorted_wrt_append dest: less_imp_le)
qed

lemma selections_chain:
  fixes e :: "'w env"
  shows "sorted_wrt (<) (map (\<lambda>p. select_stage (fst p))
      (selections (events (thn (select_chain e chosen_state chosen_dist chosen_court)
               (fill_search e name chosen_date) w))))
    \<and> (\<forall>p \<in> set (selections (events (thn (select_chain e chosen_state chosen_dist chosen_court)
               (fill_search e name chosen_date) w))). 1 \<le> select_stage (fst p))"
proof -
  define R4 where "R4 = thn (fill e (Loc DATE) chosen_date)
      (thn (fill_value e DATE chosen_date) (bnd (solve_captcha e) (fill_value e CAPTCHA_CODE)))"
  define R3 where "R3 = thn (choose_name e name) R4"
  define R2 where "R2 = thn (choose_complex e chosen_court) R3"
  define R1 where "R1 = thn (choose_district e chosen_dist) R2"
  have A: "thn (select_chain e chosen_state chosen_dist chosen_court)
               (fill_search e name chosen_date) = thn (choose_state e chosen_state) R1"
    unfolding select_chain_def fill_search_def R1_def R2_def R3_def R4_def
    by (simp only: thn_assoc)
  have r4: "selections (events (R4 w')) = []" for w'
    unfolding R4_def
    by (rule selections_silent[OF emitsD])
       (intro emits_thn emits_bnd emits_fill emits_fill_value emits_solve_captcha;
        simp add: selected_of_other)
  have p4: "sorted_wrt (<) (map (\<lambda>p. select_stage (fst p)) (selections (events (R4 w'))))
          \<and> (\<forall>p \<in> set (selections (events (R4 w'))). 4 < select_stage (fst p))" for w'
    by (simp add: r4)
  have p3: "sorted_wrt (<) (map (\<lambda>p. select_stage (fst p)) (selections (events (R3 w'))))
          \<and> (\<forall>p \<in> set (selections (events (R3 w'))). 3 < select_stage (fst p))" for w'
    using picks_thn[of "choose_name e name" COURT_NAME 4 R4 w', OF _ _ p4, folded R3_def]
      selections_choose[of e COURT_NAME name]
    unfolding choose_name_def by fastforce
  have p2: "sorted_wrt (<) (map (\<lambda>p. select_stage (fst p)) (selections (events (R2 w'))))
          \<and> (\<forall>p \<in> set (selections (events (R2 w'))). 2 < select_stage (fst p))" for w'
    using picks_thn[of "choose_complex e chosen_court" COURT 3 R3 w', OF _ _ p3, folded R2_def]
      selections_choose[of e COURT chosen_court]
    unfolding choose_complex_def by fastforce
  have p1: "sorted_wrt (<) (map (\<lambda>p. select_stage (fst p)) (selections (events (R1 w'))))
          \<and> (\<forall>p \<in> set (selections (events (R1 w'))). 1 < select_stage (fst p))" for w'
    using picks_thn[of "choose_district e chosen_dist" DIST 2 R2 w', OF _ _ p2, folded R1_def]
      selections_choose[of e DIST chosen_dist]
    unfolding choose_district_def by fastforce
  show ?thesis
    unfolding A
    using picks_thn[of "choose_state e chosen_state" STATE 1 R1 w, OF _ _ p1]
      selections_choose[of e STATE chosen_state]
    unfolding choose_state_def by fastforce
qed

lemma begin_scrape_selections:
  fixes e :: "'w env"
  shows "sorted_wrt (<) (map (\<lambda>p. select_stage (fst p))
      (selections (events (begin_scrape e self chosen_state chosen_dist chosen_court name
         chosen_date ct w))))
    \<and> list_all (\<lambda>p. fst p \<in> {STATE, DIST, COURT, COURT_NAME})
        (selections (events (begin_scrape e self chosen_state chosen_dist chosen_court name
         chosen_date ct w)))"
proof -
  define A where "A = thn (select_chain e chosen_state chosen_dist chosen_court)
                    (fill_search e name chosen_date)"
  define REST where "REST = thn (click e (Loc (case_value ct))) (thn (pass_captcha e ct)
      (get_pdfs e self chosen_state chosen_dist chosen_court name))"
  define body where "body = thn (open_portal e self) (thn A REST)"
  let ?T = "events (begin_scrape e self chosen_state chosen_dist chosen_court name
      chosen_date ct w)"
  have bs: "begin_scrape e self chosen_state chosen_dist chosen_court name chosen_date ct =
      with_playwright e body"
    unfolding begin_scrape_parts body_def A_def REST_def by (simp only: thn_assoc)
  have o: "selections (events (open_portal e self w')) = []" for w'
    by (rule selections_silent[OF emitsD])
       (intro emits_open_portal; simp add: selected_of_other)
  have r: "selections (events (REST w')) = []" for w'
    unfolding REST_def
    by (rule selections_silent[OF emitsD])
       (intro emits_thn emits_click emits_pass_captcha emits_get_pdfs;
        simp add: selected_of_other)
  have s: "selections [(PlaywrightStart, x)] = []" "selections [(PlaywrightStop, x)] = []" for x
    by (simp_all add: selections_def selected_of_def List.map_filter_simps)
  have "\<exists>w1. selections ?T = [] \<or> selections ?T = selections (events (A w1))"
  proof (cases "fst (do_unit e PlaywrightStart w)")
    case (Inl ex)
    then show ?thesis
      unfolding bs by (simp add: events_with_playwright s)
  next
    case start: (Inr u)
    let ?w0 = "snd (do_unit e PlaywrightStart w)"
    have T: "?T = [(PlaywrightStart, Inr RUnit)] @ events (body ?w0) @ [(PlaywrightStop, Inr RUnit)]"
      unfolding bs using start by (simp add: events_with_playwright)
    have "selections (events (body ?w0)) = [] \<or>
        selections (events (body ?w0)) = selections (events (A (after (open_portal e self ?w0))))"
      unfolding body_def
      by (simp add: events_thn o r split: sum.splits)
    then show ?thesis
      unfolding T selections_simps s by auto
  qed
  then obtain w1 where c: "selections ?T = [] \<or> selections ?T = selections (events (A w1))"
    by blast
  note ch = selections_chain[of e chosen_state chosen_dist chosen_court name chosen_date w1,
      folded A_def]
  have pos: "list_all (\<lambda>p. fst p \<in> {STATE, DIST, COURT, COURT_NAME}) (selections (events (A w1)))"
    unfolding list_all_iff
  proof
    fix p assume "p \<in> set (selections (events (A w1)))"
    with ch have "1 \<le> select_stage (fst p)" by blast
    then have "0 < select_stage (fst p)" by simp
    then show "fst p \<in> {STATE, DIST, COURT, COURT_NAME}" by (rule select_stage_pos)
  qed
  from c show ?thesis
  proof
    assume "selections ?T = []"
    then show ?thesis by simp
  next
    assume "selections ?T = selections (events (A w1))"
    then show ?thesis using ch pos by simp
  qed
qed

section \<open>The loop over court names\<close>

lemma collect_options_kept:
  "outcome (collect_options e opts loc w) = Inr names \<Longrightarrow>
   names = loc @ options_kept (events (collect_options e opts loc w))"
proof (induction opts arbitrary: loc w)
  case Nil
  then show ?case by simp
next
  case (Cons i opts)
  let ?a = "get_attribute e i ''value'' w"
  from Cons.prems obtain v where a: "outcome ?a = Inr v"
    by (cases "outcome ?a") (simp_all add: outcome_bnd)
  let ?b = "inner_text e i (after ?a)"
  from Cons.prems a obtain label where b: "outcome ?b = Inr label"
    by (cases "outcome ?b") (simp_all add: outcome_bnd)
  let ?c = "get_attribute e i ''disabled'' (after ?b)"
  from Cons.prems a b obtain d where c: "outcome ?c = Inr d"
    by (cases "outcome ?c") (simp_all add: outcome_bnd)
  let ?loc = "if (case v of None \<Rightarrow> '''' | Some s \<Rightarrow> s) \<noteq> '''' \<and> d = None
              then loc @ [label] else loc"
  let ?rest = "collect_options e opts ?loc (after ?c)"
  have out: "outcome (collect_options e (i # opts) loc w) = outcome ?rest"
    using a b c by (simp add: outcome_bnd)
  have eva: "events ?a = [(GetAttribute i ''value'', Inr (RAttr v))]"
    using a by (simp add: get_attribute_def events_prim outcome_prim)
  have evb: "events ?b = [(InnerText i, Inr (RStr label))]"
    using b by (simp add: inner_text_def events_prim outcome_prim)
  have evc: "events ?c = [(GetAttribute i ''disabled'', Inr (RAttr d))]"
    using c by (simp add: get_attribute_def events_prim outcome_prim)
  have ev: "events (collect_options e (i # opts) loc w) =
      (GetAttribute i ''value'', Inr (RAttr v)) # (InnerText i, Inr (RStr label)) #
      (GetAttribute i ''disabled'', Inr (RAttr d)) # events ?rest"
    using a b c by (simp add: events_bnd eva evb evc)
  from Cons.prems out have "outcome ?rest = Inr names" by simp
  from Cons.IH[OF this] have ih: "names = ?loc @ options_kept (events ?rest)" .
  have k: "kept_of (GetAttribute i ''value'', Inr (RAttr v)) (InnerText i, Inr (RStr label))
      (GetAttribute i ''disabled'', Inr (RAttr d)) =
      (if (case v of None \<Rightarrow> '''' | Some s \<Rightarrow> s) \<noteq> '''' \<and> d = None then [label] else [])"
    by (cases v) (simp_all add: kept_of_def)
  show ?case
    unfolding ev options_kept.simps k using ih by simp
qed

lemma get_all_options_kept:
  assumes "outcome (get_all_options e node w) = Inr names"
  shows "names = options_kept (drop 2 (events (get_all_options e node w)))"
proof -
  let ?a = "all_loc e (Loc (node @ '' option'')) (elapse e 5 w)"
  from assms obtain opts where a: "outcome ?a = Inr opts"
    by (cases "outcome ?a") (simp_all add: get_all_options_def outcome_thn outcome_bnd)
  let ?c = "collect_options e opts [] (after ?a)"
  have out: "outcome (get_all_options e node w) = outcome ?c"
    using a by (simp add: get_all_options_def outcome_thn outcome_bnd after_thn)
  have ev: "drop 2 (events (get_all_options e node w)) = events ?c"
    using a by (simp add: get_all_options_def events_thn events_bnd after_thn events_all_loc)
  from assms out have "outcome ?c = Inr names" by simp
  from collect_options_kept[OF this] show ?thesis
    unfolding ev by simp
qed

lemma begin_scrape_is_spec:
  "begin_scrape e self chosen_state chosen_dist chosen_court chosen_court_name chosen_date
       case_type =
   begin_scrape_spec e self chosen_state chosen_dist chosen_court chosen_court_name
       chosen_date case_type"
  unfolding begin_scrape_parts begin_scrape_spec_def submit_search_def
  by (simp only: thn_assoc)

lemma events_for_each_Cons:
  "events (for_each f (x # xs) w) =
     events (f x w) @
     (case outcome (f x w) of Inl ex \<Rightarrow> [] | Inr u \<Rightarrow> events (for_each f xs (after (f x w))))"
  by (simp only: for_each_simps events_thn)

section \<open>What the scraping writes\<close>

lemma fs_of_none [simp]:
  "fs_of (Click l, r) = None" "fs_of (Sleep n, r) = None" "fs_of (IsVisible l, r) = None"
  "fs_of (GetAttribute l a, r) = None" "fs_of (SelectOption l v, r) = None"
  "fs_of (Fill l s, r) = None" "fs_of (All l, r) = None" "fs_of (InnerText l, r) = None"
  "fs_of (Evaluate js, r) = None" "fs_of (Print s, r) = None" "fs_of (Yield d, r) = None"
  "fs_of (Launch h, r) = None" "fs_of (NewPage, r) = None" "fs_of (Goto u, r) = None"
  "fs_of (WaitForLoadState s, r) = None"
  by (simp_all add: fs_of_def)

lemma plain_parts: "plain s \<Longrightarrow> root_of s = '''' \<and> parts_of s = [s]"
  by (simp add: plain_def root_of_no_slash parts_of_def split_on_no_sep)

lemma join1_plain: "plain s \<Longrightarrow> join1 p s = Path (root p) (parts p @ [s])"
  by (simp add: join1_def plain_parts)

lemma pdf_parent_plain:
  assumes "plain state'" "plain dist" "plain court" "plain court_name"
  shows "pdf_parent self state' dist court court_name =
           Path (root_of (PATH self)) (parts_of (PATH self) @ [state', dist, court, court_name])"
    and "under (parse_path (PATH self)) (pdf_parent self state' dist court court_name)"
proof -
  show a: "pdf_parent self state' dist court court_name =
           Path (root_of (PATH self)) (parts_of (PATH self) @ [state', dist, court, court_name])"
    using assms by (simp add: pdf_parent_def joinpath_def join1_plain parse_path_def)
  show "under (parse_path (PATH self)) (pdf_parent self state' dist court court_name)"
    unfolding a using assms by (auto simp: under_def parse_path_def plain_def)
qed

lemma quiet_log:
  "list_all quiet t \<Longrightarrow> fs_calls t = [] \<and> cnr_reads t = [] \<and> links_found t = 0"
  by (induction t) (auto simp: quiet_def log_defs List.map_filter_simps)

lemma emits_quiet: "emits quiet m \<Longrightarrow> fs_calls (events (m w)) = [] \<and> cnr_reads (events (m w)) = []
    \<and> links_found (events (m w)) = 0"
  by (rule quiet_log) (rule emitsD)

lemma quiet_simps [simp]:
  "quiet (Click (Loc s), r)" "quiet (Click (First l), r)" "quiet (Sleep n, r)"
  "quiet (IsVisible l, r)"
  "quiet (GetAttribute l a, r)" "quiet (SelectOption l v, r)"
  "quiet (Fill l s, r)" "quiet (Evaluate js, r)" "quiet (Print s, r)"
  "quiet (Launch h, r)" "quiet (NewPage, r)" "quiet (Goto u, r)"
  "quiet (WaitForLoadState s, r)" "quiet (PlaywrightStart, r)" "quiet (PlaywrightStop, r)"
  "quiet (InnerText (Nth l i), r)" "l \<noteq> Loc VIEW \<Longrightarrow> quiet (All l, r)"
  by (simp_all add: quiet_def fs_of_def cnr_of_def found_of_def)

lemma quiet_open_portal: "emits quiet (open_portal e self)"
  by (intro emits_open_portal; simp)

lemma quiet_dismiss_modal: "emits quiet (dismiss_modal e)"
  by (intro emits_dismiss_modal; simp)

lemma quiet_select_chain: "emits quiet (select_chain e chosen_state chosen_dist chosen_court)"
  unfolding select_chain_def choose_state_def choose_district_def choose_complex_def
  by (intro emits_thn emits_catch emits_choose_option emits_print; simp)

lemma quiet_submit_search: "emits quiet (submit_search e name chosen_date case_type)"
  unfolding submit_search_def fill_search_def choose_name_def
  by (intro emits_thn emits_bnd emits_catch emits_choose_option emits_print emits_fill
        emits_fill_value emits_solve_captcha emits_click emits_pass_captcha; simp)

lemma emits_collect_options_mem:
  assumes "\<And>i a r. i \<in> set opts \<Longrightarrow> P (GetAttribute i a, r)"
    "\<And>i r. i \<in> set opts \<Longrightarrow> P (InnerText i, r)"
  shows "emits P (collect_options e opts loc)"
  using assms
proof (induction opts arbitrary: loc)
  case Nil
  show ?case unfolding collect_options.simps by (rule emits_ret)
next
  case (Cons i opts)
  have ih: "emits P (collect_options e opts loc')" for loc'
    by (rule Cons.IH) (simp_all add: Cons.prems)
  show ?case
    unfolding collect_options.simps
    by (intro emits_bnd emits_get_attribute emits_inner_text ih) (simp_all add: Cons.prems)
qed

lemma option_not_view: "node @ '' option'' \<noteq> VIEW"
proof
  assume "node @ '' option'' = VIEW"
  then have "last (node @ '' option'') = last VIEW" by (rule arg_cong)
  then show False by (simp add: VIEW_def)
qed

lemma quiet_get_all_options: "emits quiet (get_all_options e node)"
  unfolding get_all_options_def
proof (intro emits_thn emits_sleep emits_bnd_outcome)
  show "quiet (Sleep 5, Inr RUnit)" by simp
  show "emits quiet (all_loc e (Loc (node @ '' option'')))"
    by (rule emits_all_loc) (simp add: option_not_view)
next
  fix w opts
  assume "outcome (all_loc e (Loc (node @ '' option'')) w) = Inr opts"
  then obtain n where r: "opts = map (Nth (Loc (node @ '' option''))) [0..<n]"
    by (cases "fst (ask_count e (All (Loc (node @ '' option''))) w)") (auto simp: outcome_all_loc)
  show "emits quiet (collect_options e opts [])"
    unfolding r by (rule emits_collect_options_mem) auto
qed


lemma audit_with_playwright:
  "fs_calls (events (with_playwright e body w)) =
     (case fst (do_unit e PlaywrightStart w) of
        Inl ex \<Rightarrow> [] | Inr u \<Rightarrow> fs_calls (events (body (snd (do_unit e PlaywrightStart w)))))"
  "cnr_reads (events (with_playwright e body w)) =
     (case fst (do_unit e PlaywrightStart w) of
        Inl ex \<Rightarrow> [] | Inr u \<Rightarrow> cnr_reads (events (body (snd (do_unit e PlaywrightStart w)))))"
  "links_found (events (with_playwright e body w)) =
     (case fst (do_unit e PlaywrightStart w) of
        Inl ex \<Rightarrow> 0 | Inr u \<Rightarrow> links_found (events (body (snd (do_unit e PlaywrightStart w)))))"
proof -
  have s: "fs_calls [(PlaywrightStart, r)] = []" "fs_calls [(PlaywrightStop, r)] = []"
    "cnr_reads [(PlaywrightStart, r)] = []" "cnr_reads [(PlaywrightStop, r)] = []"
    "links_found [(PlaywrightStart, r)] = 0" "links_found [(PlaywrightStop, r)] = 0" for r
    by (simp_all add: log_defs of_defs List.map_filter_simps)
  have c: "events (with_playwright e body w) =
     [(PlaywrightStart, map_sum id (\<lambda>_. RUnit) (fst (do_unit e PlaywrightStart w)))] @
     (case fst (do_unit e PlaywrightStart w) of
        Inl ex \<Rightarrow> []
      | Inr u \<Rightarrow> events (body (snd (do_unit e PlaywrightStart w))) @
                 [(PlaywrightStop, Inr RUnit)])"
    unfolding events_with_playwright by simp
  show "fs_calls (events (with_playwright e body w)) =
     (case fst (do_unit e PlaywrightStart w) of
        Inl ex \<Rightarrow> [] | Inr u \<Rightarrow> fs_calls (events (body (snd (do_unit e PlaywrightStart w)))))"
    unfolding c log_append s by (simp add: s split: sum.splits)
  show "cnr_reads (events (with_playwright e body w)) =
     (case fst (do_unit e PlaywrightStart w) of
        Inl ex \<Rightarrow> [] | Inr u \<Rightarrow> cnr_reads (events (body (snd (do_unit e PlaywrightStart w)))))"
    unfolding c log_append s by (simp add: s split: sum.splits)
  show "links_found (events (with_playwright e body w)) =
     (case fst (do_unit e PlaywrightStart w) of
        Inl ex \<Rightarrow> 0 | Inr u \<Rightarrow> links_found (events (body (snd (do_unit e PlaywrightStart w)))))"
    unfolding c log_append s by (simp add: s split: sum.splits)
qed

lemma audit_quiet_then:
  assumes "emits quiet m"
  shows "fs_calls (events (bnd m f w)) =
     (case outcome (m w) of Inl ex \<Rightarrow> [] | Inr x \<Rightarrow> fs_calls (events (f x (after (m w)))))"
    and "cnr_reads (events (bnd m f w)) =
     (case outcome (m w) of Inl ex \<Rightarrow> [] | Inr x \<Rightarrow> cnr_reads (events (f x (after (m w)))))"
    and "links_found (events (bnd m f w)) =
     (case outcome (m w) of Inl ex \<Rightarrow> 0 | Inr x \<Rightarrow> links_found (events (f x (after (m w)))))"
  using emits_quiet[OF assms, of w]
  by (simp_all add: events_bnd split: sum.splits)

lemma get_pdfs_fs:
  "fs_calls (events (get_pdfs e self state' dist court court_name w)) =
     (if links_found (events (get_pdfs e self state' dist court court_name w)) = 0 then []
      else Makedirs (pdf_parent self state' dist court court_name) #
        map (\<lambda>name. Pdf (absolute (cwd e)
            (joinpath (pdf_parent self state' dist court court_name) [name @ ''.pdf''])))
          (cnr_reads (events (get_pdfs e self state' dist court court_name w))))"
proof -
  note log = get_pdfs_log[of e self state' dist court court_name w, unfolded Let_def pdf_name_def]
  have p: "pdf_paths (events (get_pdfs e self state' dist court court_name w)) =
      map (\<lambda>name. absolute (cwd e)
          (joinpath (pdf_parent self state' dist court court_name) [name @ ''.pdf'']))
        (cnr_reads (events (get_pdfs e self state' dist court court_name w)))"
    using log by simp
  have f: "fs_calls (events (get_pdfs e self state' dist court court_name w)) =
      (if links_found (events (get_pdfs e self state' dist court court_name w)) = 0 then []
       else Makedirs (pdf_parent self state' dist court court_name) #
         map Pdf (pdf_paths (events (get_pdfs e self state' dist court court_name w))))"
    using log by simp
  show ?thesis
    by (subst f, subst p) (simp add: comp_def)
qed

lemma begin_scrape_fs:
  "fs_calls (events (begin_scrape e self state' dist court court_name chosen_date case_type w)) =
     (if links_found (events (begin_scrape e self state' dist court court_name chosen_date
           case_type w)) = 0 then []
      else Makedirs (pdf_parent self state' dist court court_name) #
        map (\<lambda>name. Pdf (absolute (cwd e)
            (joinpath (pdf_parent self state' dist court court_name) [name @ ''.pdf''])))
          (cnr_reads (events (begin_scrape e self state' dist court court_name chosen_date
             case_type w))))"
proof -
  define M where "M = thn (open_portal e self)
      (thn (select_chain e state' dist court) (submit_search e court_name chosen_date case_type))"
  define G where "G = get_pdfs e self state' dist court court_name"
  have q: "emits quiet M"
    unfolding M_def
    by (intro emits_thn quiet_open_portal quiet_select_chain quiet_submit_search)
  have eq: "begin_scrape e self state' dist court court_name chosen_date case_type =
      with_playwright e (thn M G)"
    unfolding begin_scrape_is_spec begin_scrape_spec_def M_def G_def
    by (simp only: thn_assoc)
  note a = audit_quiet_then[OF q, of "\<lambda>_. G", folded thn_def]
  show ?thesis
    unfolding eq audit_with_playwright a
    by (simp add: G_def get_pdfs_fs split: sum.splits)
qed

lemma export_of_mono:
  "export_of e parent names c \<Longrightarrow> set names \<subseteq> set names' \<Longrightarrow> export_of e parent names' c"
  by (auto simp: export_of_def list_ex_iff)

lemma exports_only_append:
  assumes "exports_only e dir ns a" "exports_only e dir ns b"
  shows "exports_only e dir ns (a @ b)"
proof -
  have m: "list_all (\<lambda>c. list_ex (\<lambda>name. export_of e (dir name) (cnr_reads (a @ b)) c) ns)
      (fs_calls t)"
    if "list_all (\<lambda>c. list_ex (\<lambda>name. export_of e (dir name) rs c) ns) (fs_calls t)"
      "set rs \<subseteq> set (cnr_reads (a @ b))" for t rs
    using that unfolding list_all_iff list_ex_iff
    by (meson export_of_mono)
  have ma: "list_all (\<lambda>c. list_ex (\<lambda>name. export_of e (dir name) (cnr_reads (a @ b)) c) ns)
      (fs_calls a)"
    by (rule m[of "cnr_reads a"]) (use assms(1) in \<open>simp_all add: exports_only_def\<close>)
  have mb: "list_all (\<lambda>c. list_ex (\<lambda>name. export_of e (dir name) (cnr_reads (a @ b)) c) ns)
      (fs_calls b)"
    by (rule m[of "cnr_reads b"]) (use assms(2) in \<open>simp_all add: exports_only_def\<close>)
  show ?thesis
    unfolding exports_only_def log_append(4) list_all_append
    using ma mb by simp
qed

lemma exports_only_quiet: "fs_calls t = [] \<Longrightarrow> exports_only e dir ns t"
  by (simp add: exports_only_def)

lemma keepsD: "keeps e dir ns m \<Longrightarrow> exports_only e dir ns (events (m w))"
  by (simp add: keeps_def)

lemma keeps_quiet: "emits quiet m \<Longrightarrow> keeps e dir ns m"
  unfolding keeps_def using emits_quiet[of m] by (simp add: exports_only_quiet)

lemma keeps_thn:
  assumes "keeps e dir ns m" "keeps e dir ns n"
  shows "keeps e dir ns (thn m n)"
  unfolding keeps_def
proof
  fix w
  show "exports_only e dir ns (events (thn m n w))"
    using keepsD[OF assms(1), of w] keepsD[OF assms(2), of "after (m w)"]
    by (cases "outcome (m w)") (simp_all add: events_thn exports_only_append)
qed

lemma keeps_ret: "keeps e dir ns (ret x)"
  by (simp add: keeps_def exports_only_quiet)

lemma keeps_for_each:
  assumes "\<And>x. x \<in> set xs \<Longrightarrow> keeps e dir ns (f x)"
  shows "keeps e dir ns (for_each f xs)"
  using assms
proof (induction xs)
  case Nil
  show ?case unfolding for_each_simps by (rule keeps_ret)
next
  case (Cons x xs)
  show ?case
    unfolding for_each_simps
    by (intro keeps_thn Cons.prems Cons.IH) simp_all
qed

lemma keeps_get_pdfs:
  assumes "name \<in> set ns"
  shows "keeps e (pdf_parent self state' dist court) ns (get_pdfs e self state' dist court name)"
  unfolding keeps_def exports_only_def
proof
  fix w
  show "list_all (\<lambda>c. list_ex (\<lambda>n. export_of e (pdf_parent self state' dist court n)
          (cnr_reads (events (get_pdfs e self state' dist court name w))) c) ns)
      (fs_calls (events (get_pdfs e self state' dist court name w)))"
    apply (subst get_pdfs_fs)
    using assms by (auto simp: list_all_iff list_ex_iff export_of_def)
qed

lemma begin_scrape_all_fs:
  "fs_calls (events (begin_scrape_all e self state' dist court chosen_date case_type w)) = []
   \<or> (\<exists>w1 names pre post.
         outcome (get_all_options e COURT_NAME w1) = Inr names
       \<and> events (begin_scrape_all e self state' dist court chosen_date case_type w)
           = pre @ events (get_all_options e COURT_NAME w1) @ post
       \<and> exports_only e (pdf_parent self state' dist court) names
           (events (begin_scrape_all e self state' dist court chosen_date case_type w)))"
proof -
  define M where "M = thn (open_portal e self) (select_chain e state' dist court)"
  define body where "body = (\<lambda>name.
           thn (dismiss_modal e)
          (thn (submit_search e name chosen_date case_type)
          (thn (sleep e 3)
               (get_pdfs e self state' dist court name))))"
  define L where "L = for_each body"
  define Gao where "Gao = get_all_options e COURT_NAME"
  let ?T = "events (begin_scrape_all e self state' dist court chosen_date case_type w)"
  have q: "emits quiet M"
    unfolding M_def by (intro emits_thn quiet_open_portal quiet_select_chain)
  have qg: "emits quiet Gao"
    unfolding Gao_def by (rule quiet_get_all_options)
  have eq: "begin_scrape_all e self state' dist court chosen_date case_type =
      with_playwright e (thn M (bnd Gao L))"
    unfolding begin_scrape_all_parts begin_scrape_all_spec_def M_def L_def body_def Gao_def
    by (simp only: thn_assoc)
  have kl: "keeps e (pdf_parent self state' dist court) names (L names)" for names
    unfolding L_def body_def
    by (intro keeps_for_each keeps_thn keeps_get_pdfs keeps_quiet quiet_dismiss_modal
          quiet_submit_search emits_sleep) simp_all
  note aM = audit_quiet_then[OF q, of "\<lambda>_. bnd Gao L", folded thn_def]
  note aG = audit_quiet_then[OF qg, of L]
  show ?thesis
  proof (cases "fst (do_unit e PlaywrightStart w)")
    case (Inl ex)
    then show ?thesis
      unfolding eq audit_with_playwright by simp
  next
    case start: (Inr u)
    let ?w0 = "snd (do_unit e PlaywrightStart w)"
    show ?thesis
    proof (cases "outcome (M ?w0)")
      case (Inl ex)
      then show ?thesis
        unfolding eq audit_with_playwright aM using start by simp
    next
      case m: (Inr u1)
      let ?w1 = "after (M ?w0)"
      show ?thesis
      proof (cases "outcome (Gao ?w1)")
        case (Inl ex)
        then show ?thesis
          unfolding eq audit_with_playwright aM aG using start m by simp
      next
        case g: (Inr names)
        let ?w2 = "after (Gao ?w1)"
        have ev: "?T = ((PlaywrightStart, Inr RUnit) # events (M ?w0)) @ events (Gao ?w1) @
            (events (L names ?w2) @ [(PlaywrightStop, Inr RUnit)])"
          unfolding eq events_with_playwright using start m g
          by (simp add: events_thn events_bnd)
        have f: "fs_calls ?T = fs_calls (events (L names ?w2))"
          and c: "cnr_reads ?T = cnr_reads (events (L names ?w2))"
          unfolding eq audit_with_playwright aM aG using start m g by simp_all
        have k: "exports_only e (pdf_parent self state' dist court) names ?T"
          using keepsD[OF kl, of names ?w2] unfolding exports_only_def f c .
        show ?thesis
          using g ev k unfolding Gao_def by blast
      qed
    qed
  qed
qed

section \<open>The retry loop of pass_captcha\<close>

lemma events_pass_captcha:
  "events (pass_captcha e case_type w) = events (pass_captcha_loop e case_type 0 w)"
  by (simp add: pass_captcha_def events_bnd split: sum.splits)

lemma outcome_pass_captcha:
  "outcome (pass_captcha e case_type w) =
     (case outcome (pass_captcha_loop e case_type 0 w) of
        Inl ex \<Rightarrow> Inl ex
      | Inr idx \<Rightarrow> if idx = MAX_ITERATIONS then Inl ValueError else Inr ())"
  by (simp add: pass_captcha_def outcome_bnd split: sum.splits)

text \<open>
  C1. The retry loop of \<open>pass_captcha\<close> is a total function (its termination is proved with
  the measure \<open>MAX_ITERATIONS - idx\<close>), and in every run, whatever the page answers and
  whichever call raises, its body is entered at most \<open>MAX_ITERATIONS = 10\<close> times. The
  counter starts at 0 and grows by one with each iteration: when the loop ends without an
  exception, the counter is the number of iterations, and it is at most 10.
\<close>

theorem pass_captcha_bounded:
  "iterations (events (pass_captcha e case_type w)) \<le> MAX_ITERATIONS
   \<and> MAX_ITERATIONS = 10
   \<and> (\<forall>idx'. outcome (pass_captcha_loop e case_type 0 w) = Inr idx' \<longrightarrow>
         idx' = iterations (events (pass_captcha_loop e case_type 0 w))
         \<and> idx' \<le> MAX_ITERATIONS)"
proof -
  have a: "iterations (events (pass_captcha_loop e case_type 0 w)) \<le> MAX_ITERATIONS"
    using iterations_loop[of e case_type 0 w] by simp
  have b: "idx' = iterations (events (pass_captcha_loop e case_type 0 w))"
    if "outcome (pass_captcha_loop e case_type 0 w) = Inr idx'" for idx'
    using counter_loop[OF that] by simp
  show ?thesis
    using a b by (auto simp: events_pass_captcha MAX_ITERATIONS_def)
qed

theorem pass_captcha_bounded_witness:
  "outcome (pass_captcha_loop (demo_env 2 0 []) CIVIL 0 0) = Inr 2
   \<and> iterations (events (pass_captcha_loop (demo_env 2 0 []) CIVIL 0 0)) = 2"
proof -
  have h: "outcome (pass_captcha_loop (demo_env 2 0 []) CIVIL 0 0) = Inr 2"
    by (simp add: pass_captcha_loop.simps run_defs demo_env_def MAX_ITERATIONS_def
          IMG_TO_CANVAS_JS_def)
  from pass_captcha_bounded[of "demo_env 2 0 []" CIVIL 0] h show ?thesis
    by simp
qed

text \<open>
  C2. On a page whose modal is still visible at the first ten looks and gone at the eleventh,
  that is, where the tenth retry solves the captcha, the loop runs its ten iterations, the
  last look at the modal answers "not visible", and \<open>pass_captcha\<close> raises \<open>ValueError\<close>
  all the same. Where the ninth retry solves it, \<open>pass_captcha\<close> returns.
\<close>

theorem pass_captcha_solved_on_last_retry:
  "outcome (pass_captcha (demo_env 10 0 []) CIVIL 0) = Inl ValueError
   \<and> last (events (pass_captcha (demo_env 10 0 []) CIVIL 0)) =
       (IsVisible (First (Loc CLOSE)), Inr (RBool False))
   \<and> iterations (events (pass_captcha (demo_env 10 0 []) CIVIL 0)) = 10
   \<and> outcome (pass_captcha (demo_env 9 0 []) CIVIL 0) = Inr ()"
  by code_simp

section \<open>get_pdfs\<close>


text \<open>
  C5. In every run of \<open>get_pdfs\<close> the result rows are clicked in the order of the page,
  each at most once and never more than \<^verbatim>\<open>view.all()\<close> found. The log of the run is a header
  (the pause, \<^verbatim>\<open>view.all()\<close>, \<^verbatim>\<open>os.makedirs\<close>), then one block for each yielded record, then
  a remainder that yields nothing; each block is: the click on the row, the pause, the
  reading of the CNR label, the writing of the PDF, the pause, the click on the back button,
  the wait for the page, the yield, in this order and none raising. So one record is yielded
  for each row whose processing reached its last step, each after the back button was
  clicked and the PDF written, and at most one row is started and not finished. A run that
  ends without an exception and without a reported timeout is the header followed by one
  such block for every row found, and nothing else.
\<close>

theorem get_pdfs_one_record_per_row:
  "let r = get_pdfs e self state dist court court_name w; t = events r;
       parent = pdf_parent self state dist court court_name in
     row_clicks t = [0..<length (row_clicks t)]
   \<and> length (row_clicks t) \<le> links_found t
   \<and> length (yields t) = rows_done t
   \<and> length (yields t) \<le> length (pdf_paths t)
   \<and> length (pdf_paths t) \<le> length (row_clicks t)
   \<and> length (row_clicks t) \<le> Suc (length (yields t))
   \<and> length (yields t) \<le> back_clicks t
   \<and> back_clicks t \<le> length (pdf_paths t)
   \<and> (\<exists>pre names rest.
         t = pre @ rows_events e parent 0 names @ rest
       \<and> list_all (\<lambda>ev. fst ev \<in> {Sleep 5, All (Loc VIEW), Makedirs parent}) pre
       \<and> yields rest = [] \<and> map cnr (yields t) = names)
   \<and> (outcome r = Inr () \<and> \<not> reported t \<longrightarrow>
        length (yields t) = links_found t \<and> length (pdf_paths t) = links_found t
        \<and> row_clicks t = [0..<links_found t] \<and> back_clicks t = links_found t
        \<and> t = [(Sleep 5, Inr RUnit), (All (Loc VIEW), Inr (RNat (links_found t)))]
              @ (if links_found t = 0 then [] else [(Makedirs parent, Inr RUnit)])
              @ rows_events e parent 0 (map cnr (yields t)))"
proof -
  let ?r = "get_pdfs e self state dist court court_name w"
  let ?t = "events ?r"
  let ?parent = "pdf_parent self state dist court court_name"
  note log = get_pdfs_log[of e self state dist court court_name w, unfolded Let_def]
  have len: "length (pdf_paths ?t) = length (cnr_reads ?t)"
    using log by simp
  obtain pre names rest where
    dec: "?t = pre @ rows_events e ?parent 0 names @ rest"
    and pre: "list_all (\<lambda>ev. fst ev \<in> {Sleep 5, All (Loc VIEW), Makedirs ?parent}) pre"
    and rest: "yields rest = []" "back_clicks rest \<le> length (pdf_paths rest)"
    and clean: "outcome ?r = Inr () \<and> \<not> reported ?t \<longrightarrow>
         rest = [] \<and> length names = links_found ?t
       \<and> pre = [(Sleep 5, Inr RUnit), (All (Loc VIEW), Inr (RNat (length names)))]
               @ (if names = [] then [] else [(Makedirs ?parent, Inr RUnit)])"
    using get_pdfs_rows[of e self state dist court court_name w] by blast
  note q = header_quiet[OF pre]
  have y: "yields ?t =
      map (\<lambda>name. Dict name (str_path (joinpath ?parent [name @ ''.pdf'']))) names"
    unfolding dec using q rest(1) by (simp add: yields_rows)
  have names: "map cnr (yields ?t) = names"
    unfolding y by (simp add: comp_def)
  have ylen: "length (yields ?t) = length names"
    unfolding y by simp
  have b: "back_clicks ?t = length names + back_clicks rest"
    unfolding dec using q by simp
  have p: "length (pdf_paths ?t) = length names + length (pdf_paths rest)"
    unfolding dec using q by simp
  have bcount: "length (yields ?t) \<le> back_clicks ?t" "back_clicks ?t \<le> length (pdf_paths ?t)"
    using ylen b p rest(2) by simp_all
  have blocks: "\<exists>pre names rest.
         ?t = pre @ rows_events e ?parent 0 names @ rest
       \<and> list_all (\<lambda>ev. fst ev \<in> {Sleep 5, All (Loc VIEW), Makedirs ?parent}) pre
       \<and> yields rest = [] \<and> map cnr (yields ?t) = names"
    using dec pre rest(1) names by blast
  have full: "length (yields ?t) = links_found ?t \<and> length (pdf_paths ?t) = links_found ?t
        \<and> row_clicks ?t = [0..<links_found ?t] \<and> back_clicks ?t = links_found ?t
        \<and> ?t = [(Sleep 5, Inr RUnit), (All (Loc VIEW), Inr (RNat (links_found ?t)))]
              @ (if links_found ?t = 0 then [] else [(Makedirs ?parent, Inr RUnit)])
              @ rows_events e ?parent 0 (map cnr (yields ?t))"
    if h: "outcome ?r = Inr ()" "\<not> reported ?t"
  proof -
    have a: "length (yields ?t) = links_found ?t" using log h by blast
    have b': "length (row_clicks ?t) = links_found ?t" using log a by linarith
    have c: "length (cnr_reads ?t) = links_found ?t" using log a b' by linarith
    have d: "row_clicks ?t = [0..<links_found ?t]" using log b' by metis
    from clean h have r0: "rest = []" and n: "length names = links_found ?t"
      and pre': "pre = [(Sleep 5, Inr RUnit), (All (Loc VIEW), Inr (RNat (length names)))]
               @ (if names = [] then [] else [(Makedirs ?parent, Inr RUnit)])"
      by blast+
    have bk: "back_clicks ?t = links_found ?t"
      using b r0 n by simp
    have ne: "(names = []) = (links_found ?t = 0)"
      using n by auto
    have ex: "?t = [(Sleep 5, Inr RUnit), (All (Loc VIEW), Inr (RNat (links_found ?t)))]
              @ (if links_found ?t = 0 then [] else [(Makedirs ?parent, Inr RUnit)])
              @ rows_events e ?parent 0 (map cnr (yields ?t))"
      unfolding names
      apply (subst dec)
      apply (subst pre')
      unfolding r0 n ne by simp
    show ?thesis using a c d len bk ex by simp
  qed
  show ?thesis
    unfolding Let_def
    apply (intro conjI)
    subgoal using log by simp
    subgoal using log by simp
    subgoal using log by simp
    subgoal using log len by simp
    subgoal using log len by simp
    subgoal using log by simp
    subgoal by (rule bcount(1))
    subgoal by (rule bcount(2))
    subgoal by (rule blocks)
    subgoal using full by blast
    done
qed

theorem get_pdfs_one_record_per_row_witness:
  "outcome (get_pdfs (demo_env 0 2 ''MHAU010012342023'') \<lparr>PATH = ''static'', HEADLESS = True\<rparr>
      ''Maharashtra'' ''Pune'' ''Pune, District and Sessions Court'' ''1-Court'' 0) = Inr ()
   \<and> length (yields (events (get_pdfs (demo_env 0 2 ''MHAU010012342023'')
        \<lparr>PATH = ''static'', HEADLESS = True\<rparr>
        ''Maharashtra'' ''Pune'' ''Pune, District and Sessions Court'' ''1-Court'' 0))) = 2
   \<and> back_clicks (events (get_pdfs (demo_env 0 2 ''MHAU010012342023'')
        \<lparr>PATH = ''static'', HEADLESS = True\<rparr>
        ''Maharashtra'' ''Pune'' ''Pune, District and Sessions Court'' ''1-Court'' 0)) = 2"
proof -
  let ?r = "get_pdfs (demo_env 0 2 ''MHAU010012342023'') \<lparr>PATH = ''static'', HEADLESS = True\<rparr>
      ''Maharashtra'' ''Pune'' ''Pune, District and Sessions Court'' ''1-Court'' 0"
  have h: "outcome ?r = Inr () \<and> \<not> reported (events ?r)"
    by code_simp
  have n: "links_found (events ?r) = 2"
    by code_simp
  from get_pdfs_one_record_per_row[of "demo_env 0 2 ''MHAU010012342023''"
      "\<lparr>PATH = ''static'', HEADLESS = True\<rparr>" "''Maharashtra''" "''Pune''"
      "''Pune, District and Sessions Court''" "''1-Court''" 0] h n
  show ?thesis
    unfolding Let_def by simp
qed

text \<open>
  C10. When \<^verbatim>\<open>view.all()\<close> finds no view link, \<open>get_pdfs\<close> does nothing more: the whole run is
  the wait and that one call, it returns, and there is no \<^verbatim>\<open>os.makedirs\<close>, no \<^verbatim>\<open>page.pdf\<close>
  and no record. In every run, a call that writes to the file system means that at least
  one link was found, and the first such call creates the output directory.
\<close>

theorem get_pdfs_no_links_no_effect:
  "let r = get_pdfs e self state dist court court_name w; t = events r in
     ((All (Loc VIEW), Inr (RNat 0)) \<in> set t \<longrightarrow>
        t = [(Sleep 5, Inr RUnit), (All (Loc VIEW), Inr (RNat 0))] \<and> outcome r = Inr ())
   \<and> (links_found t = 0 \<longrightarrow> fs_calls t = [] \<and> pdf_paths t = [] \<and> yields t = [])
   \<and> (fs_calls t \<noteq> [] \<longrightarrow>
        0 < links_found t
        \<and> hd (fs_calls t) = Makedirs (pdf_parent self state dist court court_name))"
proof -
  let ?r = "get_pdfs e self state dist court court_name w"
  let ?t = "events ?r"
  note log = get_pdfs_log[of e self state dist court court_name w, unfolded Let_def]
  have a: "?t = [(Sleep 5, Inr RUnit), (All (Loc VIEW), Inr (RNat 0))] \<and> outcome ?r = Inr ()"
    if "(All (Loc VIEW), Inr (RNat 0)) \<in> set ?t"
    using get_pdfs_empty[OF that] .
  have b: "fs_calls ?t = [] \<and> pdf_paths ?t = [] \<and> yields ?t = []" if z: "links_found ?t = 0"
  proof -
    have rc: "length (row_clicks ?t) \<le> links_found ?t" using log by blast
    have cr: "length (cnr_reads ?t) \<le> length (row_clicks ?t)" using log by blast
    have yc: "length (yields ?t) \<le> length (cnr_reads ?t)" using log by blast
    have pp: "length (pdf_paths ?t) = length (cnr_reads ?t)" using log by simp
    have fs: "fs_calls ?t = []" using log z by simp
    from rc cr yc pp z have "yields ?t = []" "pdf_paths ?t = []" by simp_all
    with fs show ?thesis by simp
  qed
  have c: "0 < links_found ?t
      \<and> hd (fs_calls ?t) = Makedirs (pdf_parent self state dist court court_name)"
    if "fs_calls ?t \<noteq> []"
  proof -
    from that b have "links_found ?t \<noteq> 0" by blast
    then show ?thesis using log by simp
  qed
  show ?thesis
    unfolding Let_def using a b c by blast
qed

theorem get_pdfs_no_links_no_effect_witness:
  "events (get_pdfs (demo_env 0 0 []) \<lparr>PATH = ''static'', HEADLESS = True\<rparr>
      ''Maharashtra'' ''Pune'' ''Pune, District and Sessions Court'' ''1-Court'' 0)
     = [(Sleep 5, Inr RUnit), (All (Loc VIEW), Inr (RNat 0))]
   \<and> fs_calls (events (get_pdfs (demo_env 0 0 []) \<lparr>PATH = ''static'', HEADLESS = True\<rparr>
      ''Maharashtra'' ''Pune'' ''Pune, District and Sessions Court'' ''1-Court'' 0)) = []
   \<and> yields (events (get_pdfs (demo_env 0 0 []) \<lparr>PATH = ''static'', HEADLESS = True\<rparr>
      ''Maharashtra'' ''Pune'' ''Pune, District and Sessions Court'' ''1-Court'' 0)) = []"
proof -
  let ?r = "get_pdfs (demo_env 0 0 []) \<lparr>PATH = ''static'', HEADLESS = True\<rparr>
      ''Maharashtra'' ''Pune'' ''Pune, District and Sessions Court'' ''1-Court'' 0"
  have h: "(All (Loc VIEW), Inr (RNat 0)) \<in> set (events ?r)"
    by code_simp
  have z: "links_found (events ?r) = 0"
    by code_simp
  from get_pdfs_no_links_no_effect[of "demo_env 0 0 []"
      "\<lparr>PATH = ''static'', HEADLESS = True\<rparr>" "''Maharashtra''" "''Pune''"
      "''Pune, District and Sessions Court''" "''1-Court''" 0] h z
  show ?thesis
    unfolding Let_def by blast
qed

text \<open>
  C6, as stated, fails: joining an absolute segment discards the directory, so a page whose
  CNR label reads \<open>/tmp/x\<close> makes \<open>get_pdfs\<close> write \<open>/tmp/x.pdf\<close>, which is not under
  \<open>PATH/state/dist/court/court_name\<close>. The directory itself is joined in the same way: with
  the court name \<open>/var/tmp/v15\<close> it is \<open>/var/tmp/v15\<close>, whatever \<open>PATH\<close> is.
\<close>

theorem get_pdfs_escapes:
  "pdf_paths (events (get_pdfs (demo_env 0 1 ''/tmp/x'') \<lparr>PATH = ''static'', HEADLESS = True\<rparr>
      ''Maharashtra'' ''Pune'' ''Pune, District and Sessions Court'' ''1-Court'' 0))
     = [Path ''/'' [''tmp'', ''x.pdf'']]
   \<and> \<not> under
        (absolute (cwd (demo_env 0 1 ''/tmp/x''))
           (pdf_parent \<lparr>PATH = ''static'', HEADLESS = True\<rparr>
              ''Maharashtra'' ''Pune'' ''Pune, District and Sessions Court'' ''1-Court''))
        (Path ''/'' [''tmp'', ''x.pdf''])
   \<and> absolute (cwd (demo_env 0 1 ''/tmp/x''))
           (pdf_parent \<lparr>PATH = ''static'', HEADLESS = True\<rparr>
              ''Maharashtra'' ''Pune'' ''Pune, District and Sessions Court'' ''1-Court'')
     = Path ''/'' [''srv'', ''static'', ''Maharashtra'', ''Pune'',
          ''Pune, District and Sessions Court'', ''1-Court'']
   \<and> yields (events (get_pdfs (demo_env 0 1 ''/tmp/x'') \<lparr>PATH = ''static'', HEADLESS = True\<rparr>
      ''Maharashtra'' ''Pune'' ''Pune, District and Sessions Court'' ''1-Court'' 0))
     = [Dict ''/tmp/x'' ''/tmp/x.pdf'']
   \<and> fs_calls (events (get_pdfs (demo_env 0 1 ''MHAU010012342023'')
      \<lparr>PATH = ''static'', HEADLESS = True\<rparr>
      ''Maharashtra'' ''Pune'' ''Pune, District and Sessions Court'' ''/var/tmp/v15'' 0))
     = [Makedirs (Path ''/'' [''var'', ''tmp'', ''v15'']),
        Pdf (Path ''/'' [''var'', ''tmp'', ''v15'', ''MHAU010012342023.pdf''])]"
  by code_simp

text \<open>
  C6, amended. The calls of \<open>get_pdfs\<close> that write to the file system are, when at least one
  view link was found, one \<^verbatim>\<open>os.makedirs\<close> of the directory
  \<^verbatim>\<open>Path(PATH).joinpath(state, dist, court, court_name)\<close> followed by the \<^verbatim>\<open>page.pdf\<close> calls,
  and none otherwise. Each PDF goes to \<open>name @ ''.pdf''\<close> joined to that directory, for the CNR
  text \<open>name\<close> read from the page. Nothing is checked before these joins. When no CNR text
  read in the run holds a slash, every PDF lies directly in that directory; when each of the
  four names is a single component (not empty, not \<open>.\<close> or \<open>..\<close>, without a slash), the
  directory is the four-level directory \<open>PATH/state/dist/court/court_name\<close> under \<open>PATH\<close>.
  The two entry points write nothing else. The writing calls of \<open>begin_scrape\<close> are the
  \<^verbatim>\<open>os.makedirs\<close> of the directory of its court name and one \<^verbatim>\<open>page.pdf\<close> for each CNR text
  read in the run, at that text joined to the directory. Each writing call of
  \<open>begin_scrape_all\<close> is, for one of the court names that \<open>get_all_options\<close> returned in the
  run, the \<^verbatim>\<open>os.makedirs\<close> of the directory of that name or a \<^verbatim>\<open>page.pdf\<close> at a CNR text read
  in the run joined to that directory.
\<close>

theorem get_pdfs_writes:
  "let t = events (get_pdfs e self state dist court court_name w);
       parent = pdf_parent self state dist court court_name;
       t1 = events (begin_scrape e self state dist court court_name chosen_date case_type w');
       t2 = events (begin_scrape_all e self state dist court chosen_date case_type w') in
     fs_calls t = (if links_found t = 0 then [] else Makedirs parent # map Pdf (pdf_paths t))
   \<and> pdf_paths t =
       map (\<lambda>name. absolute (cwd e) (joinpath parent [name @ ''.pdf''])) (cnr_reads t)
   \<and> ((\<forall>name \<in> set (cnr_reads t). CHR ''/'' \<notin> set name) \<longrightarrow>
        list_all (directly_in (absolute (cwd e) parent)) (pdf_paths t))
   \<and> (plain state \<and> plain dist \<and> plain court \<and> plain court_name \<longrightarrow>
        parent = Path (root_of (PATH self))
                   (parts_of (PATH self) @ [state, dist, court, court_name])
        \<and> under (parse_path (PATH self)) parent)
   \<and> fs_calls t1 =
       (if links_found t1 = 0 then []
        else Makedirs parent #
          map (\<lambda>name. Pdf (absolute (cwd e) (joinpath parent [name @ ''.pdf'']))) (cnr_reads t1))
   \<and> (fs_calls t2 = []
      \<or> (\<exists>w1 names pre post.
            outcome (get_all_options e COURT_NAME w1) = Inr names
          \<and> t2 = pre @ events (get_all_options e COURT_NAME w1) @ post
          \<and> exports_only e (pdf_parent self state dist court) names t2))"
proof -
  let ?t = "events (get_pdfs e self state dist court court_name w)"
  let ?parent = "pdf_parent self state dist court court_name"
  note log = get_pdfs_log[of e self state dist court court_name w, unfolded Let_def pdf_name_def]
  have p: "pdf_paths ?t =
      map (\<lambda>name. absolute (cwd e) (joinpath ?parent [name @ ''.pdf''])) (cnr_reads ?t)"
    using log by simp
  have d: "list_all (directly_in (absolute (cwd e) ?parent)) (pdf_paths ?t)"
    if "\<forall>name \<in> set (cnr_reads ?t). CHR ''/'' \<notin> set name"
    unfolding p using that by (simp add: list_all_iff directly_in_pdf)
  have f: "fs_calls ?t =
      (if links_found ?t = 0 then [] else Makedirs ?parent # map Pdf (pdf_paths ?t))"
    using log by simp
  have q: "?parent = Path (root_of (PATH self))
                   (parts_of (PATH self) @ [state, dist, court, court_name])
        \<and> under (parse_path (PATH self)) ?parent"
    if "plain state \<and> plain dist \<and> plain court \<and> plain court_name"
    using pdf_parent_plain[of state dist court court_name self] that by simp
  note one = begin_scrape_fs[of e self state dist court court_name chosen_date case_type w']
  note all = begin_scrape_all_fs[of e self state dist court chosen_date case_type w']
  show ?thesis
    unfolding Let_def
    apply (intro conjI)
    subgoal by (rule f)
    subgoal by (rule p)
    subgoal using d by blast
    subgoal using q by blast
    subgoal by (rule one)
    subgoal by (rule all)
    done
qed

theorem get_pdfs_writes_witness:
  "cnr_reads (events (get_pdfs (demo_env 0 2 ''MHAU010012342023'')
      \<lparr>PATH = ''static'', HEADLESS = True\<rparr>
      ''Maharashtra'' ''Pune'' ''Pune, District and Sessions Court'' ''1-Court'' 0))
     = [''MHAU010012342023'', ''MHAU010012342023'']
   \<and> list_all
       (directly_in (Path ''/'' [''srv'', ''static'', ''Maharashtra'', ''Pune'',
          ''Pune, District and Sessions Court'', ''1-Court'']))
       (pdf_paths (events (get_pdfs (demo_env 0 2 ''MHAU010012342023'')
          \<lparr>PATH = ''static'', HEADLESS = True\<rparr>
          ''Maharashtra'' ''Pune'' ''Pune, District and Sessions Court'' ''1-Court'' 0)))
   \<and> plain ''Maharashtra'' \<and> plain ''Pune'' \<and> plain ''Pune, District and Sessions Court''
   \<and> plain ''1-Court''
   \<and> pdf_parent \<lparr>PATH = ''static'', HEADLESS = True\<rparr>
        ''Maharashtra'' ''Pune'' ''Pune, District and Sessions Court'' ''1-Court''
     = Path '''' [''static'', ''Maharashtra'', ''Pune'',
          ''Pune, District and Sessions Court'', ''1-Court'']
   \<and> under (Path '''' [''static''])
        (pdf_parent \<lparr>PATH = ''static'', HEADLESS = True\<rparr>
           ''Maharashtra'' ''Pune'' ''Pune, District and Sessions Court'' ''1-Court'')"
proof -
  let ?e = "demo_env 0 2 ''MHAU010012342023''"
  let ?self = "\<lparr>PATH = ''static'', HEADLESS = True\<rparr>"
  let ?r = "get_pdfs ?e ?self
      ''Maharashtra'' ''Pune'' ''Pune, District and Sessions Court'' ''1-Court'' 0"
  have h: "cnr_reads (events ?r) = [''MHAU010012342023'', ''MHAU010012342023'']"
    by code_simp
  have dir: "absolute (cwd ?e)
      (pdf_parent ?self
        ''Maharashtra'' ''Pune'' ''Pune, District and Sessions Court'' ''1-Court'')
      = Path ''/'' [''srv'', ''static'', ''Maharashtra'', ''Pune'',
          ''Pune, District and Sessions Court'', ''1-Court'']"
    by code_simp
  have ns: "\<forall>name \<in> set (cnr_reads (events ?r)). CHR ''/'' \<notin> set name"
    unfolding h by simp
  have pl: "plain ''Maharashtra'' \<and> plain ''Pune'' \<and> plain ''Pune, District and Sessions Court''
      \<and> plain ''1-Court''"
    by (simp add: plain_def)
  have pp: "parse_path (PATH ?self) = Path '''' [''static'']"
      "root_of (PATH ?self) = ''''" "parts_of (PATH ?self) = [''static'']"
    by code_simp+
  note k = get_pdfs_writes[of ?e ?self "''Maharashtra''"
      "''Pune''" "''Pune, District and Sessions Court''" "''1-Court''" 0, unfolded Let_def]
  note k3 = k[THEN conjunct2, THEN conjunct2, THEN conjunct1]
  note k4 = k[THEN conjunct2, THEN conjunct2, THEN conjunct2, THEN conjunct1]
  from k3 ns
  have a: "list_all (directly_in (absolute (cwd ?e)
      (pdf_parent ?self
        ''Maharashtra'' ''Pune'' ''Pune, District and Sessions Court'' ''1-Court'')))
      (pdf_paths (events ?r))"
    by blast
  from k4 pl
  have b: "pdf_parent ?self
        ''Maharashtra'' ''Pune'' ''Pune, District and Sessions Court'' ''1-Court''
      = Path (root_of (PATH ?self)) (parts_of (PATH ?self) @
          [''Maharashtra'', ''Pune'', ''Pune, District and Sessions Court'', ''1-Court''])
    \<and> under (parse_path (PATH ?self)) (pdf_parent ?self
        ''Maharashtra'' ''Pune'' ''Pune, District and Sessions Court'' ''1-Court'')"
    by blast
  from a dir have a': "list_all
       (directly_in (Path ''/'' [''srv'', ''static'', ''Maharashtra'', ''Pune'',
          ''Pune, District and Sessions Court'', ''1-Court'']))
       (pdf_paths (events ?r))"
    by simp
  from b have b1: "pdf_parent ?self
        ''Maharashtra'' ''Pune'' ''Pune, District and Sessions Court'' ''1-Court''
      = Path '''' [''static'', ''Maharashtra'', ''Pune'',
          ''Pune, District and Sessions Court'', ''1-Court'']"
    unfolding pp by simp
  from b have b2: "under (Path '''' [''static'']) (pdf_parent ?self
        ''Maharashtra'' ''Pune'' ''Pune, District and Sessions Court'' ''1-Court'')"
    unfolding pp by (rule conjunct2)
  from h a' pl b1 b2 show ?thesis
    by blast
qed

section \<open>solve_captcha\<close>

text \<open>
  C8, as stated, fails: \<open>solve_captcha\<close> catches \<open>UnidentifiedImageError\<close> and nothing else.
  When the bytes of the captcha were captured and \<^verbatim>\<open>Image.open\<close> fails on them with another
  exception, that exception leaves \<open>solve_captcha\<close>; so does one raised by
  \<^verbatim>\<open>pytesseract.image_to_string\<close>; and when the data URL holds no comma, \<open>download_image\<close>
  raises \<open>IndexError\<close>, which leaves \<open>solve_captcha\<close> too. It does not always return a string.
\<close>

theorem solve_captcha_propagates:
  "outcome (download_image (demo_env 0 0 []\<lparr>image_open := \<lambda>b. Inl Error\<rparr>) 0)
     = Inr ''iVBORw0KGgo=''
   \<and> image_open (demo_env 0 0 []\<lparr>image_open := \<lambda>b. Inl Error\<rparr>) ''iVBORw0KGgo=''
     = Inl Error
   \<and> outcome (solve_captcha (demo_env 0 0 []\<lparr>image_open := \<lambda>b. Inl Error\<rparr>) 0)
     = Inl Error
   \<and> outcome (solve_captcha
       (demo_env 0 0 []\<lparr>image_to_string := \<lambda>i. Inl Error\<rparr>) 0) = Inl Error
   \<and> outcome (solve_captcha
       (demo_env 0 0 []\<lparr>ask_str := \<lambda>c w. (Inr ''data:image/png;base64'', w)\<rparr>) 0)
     = Inl IndexError"
  by code_simp

text \<open>
  C8, amended. \<open>solve_captcha\<close> returns the text read from the image when the capture,
  \<^verbatim>\<open>Image.open\<close> and \<^verbatim>\<open>pytesseract.image_to_string\<close> all succeed, returns the empty string when
  one of them raises \<open>UnidentifiedImageError\<close>, and raises every other exception that one of
  them raises; it never raises \<open>UnidentifiedImageError\<close>. When the bytes of the captcha were
  captured and \<^verbatim>\<open>Image.open\<close> raises \<open>UnidentifiedImageError\<close> on them, it prints the error
  line and returns the empty string.
\<close>

theorem solve_captcha_catches_one:
  "outcome (solve_captcha e w) =
     (case outcome (download_image e w) of
        Inl ex \<Rightarrow> if ex = UnidentifiedImageError then Inr '''' else Inl ex
      | Inr data \<Rightarrow>
          (case image_open e data of
             Inl ex \<Rightarrow> if ex = UnidentifiedImageError then Inr '''' else Inl ex
           | Inr img \<Rightarrow>
               (case image_to_string e img of
                  Inl ex \<Rightarrow> if ex = UnidentifiedImageError then Inr '''' else Inl ex
                | Inr s \<Rightarrow> Inr s)))
   \<and> outcome (solve_captcha e w) \<noteq> Inl UnidentifiedImageError
   \<and> (outcome (download_image e w) = Inr data
        \<and> image_open e data = Inl UnidentifiedImageError \<longrightarrow>
      outcome (solve_captcha e w) = Inr ''''
      \<and> events (solve_captcha e w) =
          events (download_image e w) @
          [(Print ''[ERROR]: Invalid Image format found'', Inr RUnit)])"
proof -
  have a: "outcome (solve_captcha e w) =
     (case outcome (download_image e w) of
        Inl ex \<Rightarrow> if ex = UnidentifiedImageError then Inr '''' else Inl ex
      | Inr data \<Rightarrow>
          (case image_open e data of
             Inl ex \<Rightarrow> if ex = UnidentifiedImageError then Inr '''' else Inl ex
           | Inr img \<Rightarrow>
               (case image_to_string e img of
                  Inl ex \<Rightarrow> if ex = UnidentifiedImageError then Inr '''' else Inl ex
                | Inr s \<Rightarrow> Inr s)))"
    by (simp add: solve_captcha_def outcome_catch outcome_bnd outcome_thn split: sum.splits)
  have b: "outcome (solve_captcha e w) \<noteq> Inl UnidentifiedImageError"
    unfolding a by (simp split: sum.splits)
  have c: "outcome (solve_captcha e w) = Inr ''''
      \<and> events (solve_captcha e w) =
          events (download_image e w) @
          [(Print ''[ERROR]: Invalid Image format found'', Inr RUnit)]"
    if "outcome (download_image e w) = Inr data"
      "image_open e data = Inl UnidentifiedImageError"
    using solve_captcha_caught[of e w data] that by simp
  show ?thesis using a b c by blast
qed

theorem solve_captcha_catches_one_witness:
  "outcome (solve_captcha
      (demo_env 0 0 []\<lparr>image_open := \<lambda>b. Inl UnidentifiedImageError\<rparr>) 0) = Inr ''''
   \<and> events (solve_captcha
      (demo_env 0 0 []\<lparr>image_open := \<lambda>b. Inl UnidentifiedImageError\<rparr>) 0) =
       [(Evaluate IMG_TO_CANVAS_JS, Inr (RStr ''data:image/png;base64,iVBORw0KGgo='')),
        (Print ''[ERROR]: Invalid Image format found'', Inr RUnit)]"
proof -
  let ?e = "demo_env 0 0 []\<lparr>image_open := \<lambda>b. Inl UnidentifiedImageError\<rparr>"
  have h1: "outcome (download_image ?e 0) = Inr ''iVBORw0KGgo=''"
    by code_simp
  have h2: "image_open ?e ''iVBORw0KGgo='' = Inl UnidentifiedImageError"
    by (simp add: demo_env_def)
  have ev: "events (download_image ?e 0) =
      [(Evaluate IMG_TO_CANVAS_JS, Inr (RStr ''data:image/png;base64,iVBORw0KGgo=''))]"
    by code_simp
  from solve_captcha_catches_one[of ?e 0 "''iVBORw0KGgo=''"] h1 h2 ev show ?thesis
    by simp
qed

section \<open>ConnectionManager.broadcast\<close>

text \<open>
  C9. \<open>broadcast\<close> never changes \<open>active_connections\<close>. The only call of \<^verbatim>\<open>send_json\<close> it
  makes is on the socket stored under the given id, with the given message, and it makes
  none when the id is absent; then nothing at all happens and nothing is raised. A socket
  stored under another id, and not also under the given one, is sent nothing.
\<close>

theorem broadcast_only_to_id:
  "let r = broadcast send idx message s in
     active_connections (after r) = active_connections s
   \<and> sent (events r) =
       (case active_connections s idx of None \<Rightarrow> [] | Some socket \<Rightarrow> [(socket, message)])
   \<and> (active_connections s idx = None \<longrightarrow> events r = [] \<and> outcome r = Inr () \<and> after r = s)
   \<and> (\<forall>idx' socket. active_connections s idx' = Some socket
          \<and> active_connections s idx \<noteq> Some socket \<longrightarrow>
          socket \<notin> fst ` set (sent (events r)))"
proof (cases "active_connections s idx")
  case None
  then show ?thesis
    by (simp add: broadcast_absent Let_def)
next
  case (Some socket)
  note p = broadcast_present[OF Some, of send message]
  show ?thesis
    unfolding Let_def using Some p by auto
qed

theorem broadcast_only_to_id_witness:
  "events (broadcast (\<lambda>socket m n. (Inr (), n)) ''3'' [(''cnr'', ''MHAU01''), (''path'', ''a.pdf'')]
      \<lparr>active_connections = [''1'' \<mapsto> 7, ''2'' \<mapsto> 8], wire = ()\<rparr>) = []
   \<and> sent (events (broadcast (\<lambda>socket m n. (Inr (), n)) ''1''
      [(''cnr'', ''MHAU01''), (''path'', ''a.pdf'')]
      \<lparr>active_connections = [''1'' \<mapsto> 7, ''2'' \<mapsto> 8], wire = ()\<rparr>))
       = [(7, [(''cnr'', ''MHAU01''), (''path'', ''a.pdf'')])]
   \<and> 8 \<notin> fst ` set (sent (events (broadcast (\<lambda>socket m n. (Inr (), n)) ''1''
      [(''cnr'', ''MHAU01''), (''path'', ''a.pdf'')]
      \<lparr>active_connections = [''1'' \<mapsto> 7, ''2'' \<mapsto> 8], wire = ()\<rparr>)))"
proof -
  let ?s = "\<lparr>active_connections = [''1'' \<mapsto> 7, ''2'' \<mapsto> (8::nat)], wire = ()\<rparr>"
  let ?send = "\<lambda>(socket::nat) (m::message) (n::unit). (Inr () :: exn + unit, n)"
  let ?m = "[(''cnr'', ''MHAU01''), (''path'', ''a.pdf'')]"
  have a: "active_connections ?s ''3'' = None" by simp
  have b: "active_connections ?s ''1'' = Some 7" by simp
  have c: "active_connections ?s ''2'' = Some 8 \<and> active_connections ?s ''1'' \<noteq> Some 8"
    by simp
  from broadcast_only_to_id[of ?send "''3''" ?m ?s] a
  have 1: "events (broadcast ?send ''3'' ?m ?s) = []"
    unfolding Let_def by blast
  from broadcast_only_to_id[of ?send "''1''" ?m ?s] b
  have 2: "sent (events (broadcast ?send ''1'' ?m ?s)) = [(7, ?m)]"
    unfolding Let_def by simp
  from broadcast_only_to_id[of ?send "''1''" ?m ?s] c
  have 3: "8 \<notin> fst ` set (sent (events (broadcast ?send ''1'' ?m ?s)))"
    unfolding Let_def by blast
  from 1 2 3 show ?thesis by simp
qed

section \<open>begin_scrape\<close>

text \<open>
  C3, as stated, fails: the four \<open>choose_*\<close> helpers catch the timeout of a menu whose option
  is not found, print a line and return, and \<open>begin_scrape\<close> goes on. On a page whose state
  menu has no option with the text looked for, the run ends without an exception, no state
  was ever selected (the first selection is the district), and the captcha field was filled
  and the button of the case type clicked all the same.
\<close>

theorem begin_scrape_without_state:
  "outcome (begin_scrape no_state_env \<lparr>PATH = ''static'', HEADLESS = True\<rparr> ''Maharashtra''
      ''Pune'' ''Pune, District and Sessions Court'' ''1-Court'' ''03-11-2026'' CIVIL 0) = Inr ()
   \<and> selections (events (begin_scrape no_state_env \<lparr>PATH = ''static'', HEADLESS = True\<rparr>
        ''Maharashtra'' ''Pune'' ''Pune, District and Sessions Court'' ''1-Court''
        ''03-11-2026'' CIVIL 0))
     = [(''#sess_dist_code'', Some ''1''), (''#court_complex_code'', Some ''1''),
        (''#CL_court_no'', Some ''1'')]
   \<and> form_events CIVIL (before_click CIVIL (events (begin_scrape no_state_env
        \<lparr>PATH = ''static'', HEADLESS = True\<rparr>
        ''Maharashtra'' ''Pune'' ''Pune, District and Sessions Court'' ''1-Court''
        ''03-11-2026'' CIVIL 0)))
     = [(Click (Loc ''#sess_state_code''), Inr RUnit),
        (GetAttribute (GetByText (Loc ''#sess_state_code option'') ''Maharashtra'') ''value'',
           Inl TimeoutError)]
       @ menu_events ''#sess_dist_code'' ''Pune'' (Some ''1'')
       @ menu_events ''#court_complex_code'' ''Pune, District and Sessions Court'' (Some ''1'')
       @ menu_events ''#CL_court_no'' ''1-Court'' (Some ''1'')
       @ [(Fill (Loc ''#causelist_date'') ''03-11-2026'', Inr RUnit),
          (Fill (Loc ''#causelist_date'') '''', Inr RUnit),
          (Fill (Loc ''#causelist_date'') ''03-11-2026'', Inr RUnit),
          (Fill (Loc ''#cause_list_captcha_code'') '''', Inr RUnit),
          (Fill (Loc ''#cause_list_captcha_code'') ''x7Kp2'', Inr RUnit)]
   \<and> (Print ''[ERROR]: Failed to find option Maharashtra for State'', Inr RUnit)
       \<in> set (events (begin_scrape no_state_env \<lparr>PATH = ''static'', HEADLESS = True\<rparr>
        ''Maharashtra'' ''Pune'' ''Pune, District and Sessions Court'' ''1-Court''
        ''03-11-2026'' CIVIL 0))
   \<and> (Click (Loc (case_value CIVIL)), Inr RUnit)
       \<in> set (events (begin_scrape no_state_env \<lparr>PATH = ''static'', HEADLESS = True\<rparr>
        ''Maharashtra'' ''Pune'' ''Pune, District and Sessions Court'' ''1-Court''
        ''03-11-2026'' CIVIL 0))"
  by code_simp

text \<open>
  C3, amended. In every run of \<open>begin_scrape\<close>, whatever the page answers and wherever the
  run stops, the calls on the form are made in the order of the chain: up to the first click
  on the button of the case type the steps go state (1), district (2), court complex (3),
  court name (4), date (5), captcha code (6), never back; after that click only the captcha
  field and the button are touched again (the retries); and when the button is clicked at
  all, each of the six earlier places has been acted on before it. A step is a call made on
  the form, whether it went through or not. The options that were selected are selected in
  the order state, district, court complex, court name, each menu at most once and no other
  menu; a menu whose option is not found is skipped. When the button is clicked and nothing
  was reported before that click, the calls on the form before it are exactly: for each of
  the four menus in turn the click on the menu, the reading of the value of the option with
  the chosen text and the selection of that value; the date filled, cleared and filled
  again; the captcha field cleared and filled with what \<open>solve_captcha\<close> returned; none of
  them raising.
\<close>

theorem begin_scrape_form_order:
  "let t = events (begin_scrape e self chosen_state chosen_dist chosen_court chosen_court_name
             chosen_date case_type w);
       s = form_steps case_type t in
     sorted (takeWhile (\<lambda>k. k < 7) s)
   \<and> set (dropWhile (\<lambda>k. k < 7) s) \<subseteq> {6, 7}
   \<and> (7 \<in> set s \<longrightarrow> set (takeWhile (\<lambda>k. k < 7) s) = {1, 2, 3, 4, 5, 6})
   \<and> sorted_wrt (<) (map (\<lambda>p. select_stage (fst p)) (selections t))
   \<and> list_all (\<lambda>p. fst p \<in> {STATE, DIST, COURT, COURT_NAME}) (selections t)
   \<and> (7 \<in> set s \<and> \<not> reported (before_click case_type t) \<longrightarrow>
        (\<exists>v1 v2 v3 v4 code w2.
            outcome (solve_captcha e w2) = Inr code
          \<and> form_events case_type (before_click case_type t) =
              menu_events STATE chosen_state v1 @ menu_events DIST chosen_dist v2
              @ menu_events COURT chosen_court v3 @ menu_events COURT_NAME chosen_court_name v4
              @ [(Fill (Loc DATE) chosen_date, Inr RUnit),
                 (Fill (Loc DATE) '''', Inr RUnit),
                 (Fill (Loc DATE) chosen_date, Inr RUnit),
                 (Fill (Loc CAPTCHA_CODE) '''', Inr RUnit),
                 (Fill (Loc CAPTCHA_CODE) code, Inr RUnit)]))"
proof -
  let ?t = "events (begin_scrape e self chosen_state chosen_dist chosen_court chosen_court_name
             chosen_date case_type w)"
  let ?s = "form_steps case_type ?t"
  define A where "A = thn (select_chain e chosen_state chosen_dist chosen_court)
                    (fill_search e chosen_court_name chosen_date)"
  obtain u v where "sorted u" "set u \<subseteq> {1, 2, 3, 4, 5, 6}" "set v \<subseteq> {6, 7}"
    "?s = u \<or> (?s = u @ 7 # v \<and> set u = {1, 2, 3, 4, 5, 6})"
    using begin_scrape_steps[of case_type e self chosen_state chosen_dist chosen_court
        chosen_court_name chosen_date w] by blast
  from chain_then_submit[OF this]
  have order: "sorted (takeWhile (\<lambda>k. k < 7) ?s)"
    "set (dropWhile (\<lambda>k. k < 7) ?s) \<subseteq> {6, 7}"
    "7 \<in> set ?s \<longrightarrow> set (takeWhile (\<lambda>k. k < 7) ?s) = {1, 2, 3, 4, 5, 6}"
    by blast+
  note sel = begin_scrape_selections[of e self chosen_state chosen_dist chosen_court
      chosen_court_name chosen_date case_type w]
  have exact: "\<exists>v1 v2 v3 v4 code w2.
            outcome (solve_captcha e w2) = Inr code
          \<and> form_events case_type (before_click case_type ?t) =
              menu_events STATE chosen_state v1 @ menu_events DIST chosen_dist v2
              @ menu_events COURT chosen_court v3 @ menu_events COURT_NAME chosen_court_name v4
              @ [(Fill (Loc DATE) chosen_date, Inr RUnit),
                 (Fill (Loc DATE) '''', Inr RUnit),
                 (Fill (Loc DATE) chosen_date, Inr RUnit),
                 (Fill (Loc CAPTCHA_CODE) '''', Inr RUnit),
                 (Fill (Loc CAPTCHA_CODE) code, Inr RUnit)]"
    if h: "7 \<in> set ?s" "\<not> reported (before_click case_type ?t)"
  proof -
    from begin_scrape_before_click[of case_type e self chosen_state chosen_dist chosen_court
        chosen_court_name chosen_date w, folded A_def] h(1)
    obtain w0 w1 y where a: "outcome (A w1) = Inr y"
      and b: "before_click case_type ?t =
          (PlaywrightStart, Inr RUnit) # events (open_portal e self w0) @ events (A w1)"
      by blast
    have nr: "\<not> reported (events (A w1))"
      using h(2) unfolding b by (simp add: reported_def)
    have o: "form_events case_type (events (open_portal e self w0)) = []"
      by (rule form_events_silent[OF emitsD]) (intro emits_open_portal; simp)
    have f: "form_events case_type (before_click case_type ?t) =
        form_events case_type (events (A w1))"
      unfolding b by (simp add: o)
    from clean_chain[OF a[unfolded A_def] nr[unfolded A_def], of case_type]
    show ?thesis
      unfolding f A_def .
  qed
  show ?thesis
    unfolding Let_def
    apply (intro conjI)
    subgoal by (rule order(1))
    subgoal by (rule order(2))
    subgoal by (rule order(3))
    subgoal using sel by blast
    subgoal using sel by blast
    subgoal using exact by blast
    done
qed

theorem begin_scrape_form_order_witness:
  "form_steps CIVIL (events (begin_scrape (demo_env 1 1 ''MHAU010012342023'')
      \<lparr>PATH = ''static'', HEADLESS = True\<rparr> ''Maharashtra'' ''Pune''
      ''Pune, District and Sessions Court'' ''1-Court'' ''03-11-2026'' CIVIL 0))
     = [1, 1, 1, 2, 2, 2, 3, 3, 3, 4, 4, 4, 5, 5, 5, 6, 6, 7]
   \<and> set (takeWhile (\<lambda>k. k < 7) (form_steps CIVIL (events (begin_scrape
      (demo_env 1 1 ''MHAU010012342023'')
      \<lparr>PATH = ''static'', HEADLESS = True\<rparr> ''Maharashtra'' ''Pune''
      ''Pune, District and Sessions Court'' ''1-Court'' ''03-11-2026'' CIVIL 0))))
     = {1, 2, 3, 4, 5, 6}
   \<and> selections (events (begin_scrape (demo_env 1 1 ''MHAU010012342023'')
      \<lparr>PATH = ''static'', HEADLESS = True\<rparr> ''Maharashtra'' ''Pune''
      ''Pune, District and Sessions Court'' ''1-Court'' ''03-11-2026'' CIVIL 0))
     = [(''#sess_state_code'', Some ''1''), (''#sess_dist_code'', Some ''1''),
        (''#court_complex_code'', Some ''1''), (''#CL_court_no'', Some ''1'')]
   \<and> (\<exists>v1 v2 v3 v4 code.
         form_events CIVIL (before_click CIVIL (events (begin_scrape
           (demo_env 1 1 ''MHAU010012342023'')
           \<lparr>PATH = ''static'', HEADLESS = True\<rparr> ''Maharashtra'' ''Pune''
           ''Pune, District and Sessions Court'' ''1-Court'' ''03-11-2026'' CIVIL 0))) =
           menu_events STATE ''Maharashtra'' v1 @ menu_events DIST ''Pune'' v2
           @ menu_events COURT ''Pune, District and Sessions Court'' v3
           @ menu_events COURT_NAME ''1-Court'' v4
           @ [(Fill (Loc DATE) ''03-11-2026'', Inr RUnit),
              (Fill (Loc DATE) '''', Inr RUnit),
              (Fill (Loc DATE) ''03-11-2026'', Inr RUnit),
              (Fill (Loc CAPTCHA_CODE) '''', Inr RUnit),
              (Fill (Loc CAPTCHA_CODE) code, Inr RUnit)])"
proof -
  let ?r = "begin_scrape (demo_env 1 1 ''MHAU010012342023'')
      \<lparr>PATH = ''static'', HEADLESS = True\<rparr> ''Maharashtra'' ''Pune''
      ''Pune, District and Sessions Court'' ''1-Court'' ''03-11-2026'' CIVIL 0"
  have h: "form_steps CIVIL (events ?r) = [1, 1, 1, 2, 2, 2, 3, 3, 3, 4, 4, 4, 5, 5, 5, 6, 6, 7]"
    by code_simp
  then have in7: "7 \<in> set (form_steps CIVIL (events ?r))"
    by simp
  have nr: "\<not> reported (before_click CIVIL (events ?r))"
    by code_simp
  have sl: "selections (events ?r)
     = [(''#sess_state_code'', Some ''1''), (''#sess_dist_code'', Some ''1''),
        (''#court_complex_code'', Some ''1''), (''#CL_court_no'', Some ''1'')]"
    by code_simp
  note k = begin_scrape_form_order[of "demo_env 1 1 ''MHAU010012342023''"
      "\<lparr>PATH = ''static'', HEADLESS = True\<rparr>" "''Maharashtra''" "''Pune''"
      "''Pune, District and Sessions Court''" "''1-Court''" "''03-11-2026''" CIVIL 0,
      unfolded Let_def]
  from k in7
  have a: "set (takeWhile (\<lambda>k. k < 7) (form_steps CIVIL (events ?r))) = {1, 2, 3, 4, 5, 6}"
    by blast
  from k in7 nr
  have b: "\<exists>v1 v2 v3 v4 code.
         form_events CIVIL (before_click CIVIL (events ?r)) =
           menu_events STATE ''Maharashtra'' v1 @ menu_events DIST ''Pune'' v2
           @ menu_events COURT ''Pune, District and Sessions Court'' v3
           @ menu_events COURT_NAME ''1-Court'' v4
           @ [(Fill (Loc DATE) ''03-11-2026'', Inr RUnit),
              (Fill (Loc DATE) '''', Inr RUnit),
              (Fill (Loc DATE) ''03-11-2026'', Inr RUnit),
              (Fill (Loc CAPTCHA_CODE) '''', Inr RUnit),
              (Fill (Loc CAPTCHA_CODE) code, Inr RUnit)]"
    by blast
  from h a sl b show ?thesis
    by blast
qed

section \<open>begin_scrape_all\<close>

text \<open>
  C7, as stated, fails in one point: the loop does not visit every enabled option. On a page
  whose court name menu holds the placeholder (empty value, not disabled) and one court,
  \<open>get_all_options\<close> reads both options, finds neither disabled, and returns the court
  only; \<open>begin_scrape_all\<close> looks up that one name and ends without an exception.
\<close>

theorem begin_scrape_all_skips_placeholder:
  "events (get_all_options menu_env COURT_NAME 0) =
     [(Sleep 5, Inr RUnit),
      (All (Loc ''#CL_court_no option''), Inr (RNat 2)),
      (GetAttribute (Nth (Loc ''#CL_court_no option'') 0) ''value'', Inr (RAttr (Some ''''))),
      (InnerText (Nth (Loc ''#CL_court_no option'') 0), Inr (RStr ''Select Court Name'')),
      (GetAttribute (Nth (Loc ''#CL_court_no option'') 0) ''disabled'', Inr (RAttr None)),
      (GetAttribute (Nth (Loc ''#CL_court_no option'') 1) ''value'', Inr (RAttr (Some ''1''))),
      (InnerText (Nth (Loc ''#CL_court_no option'') 1), Inr (RStr ''1-Court'')),
      (GetAttribute (Nth (Loc ''#CL_court_no option'') 1) ''disabled'', Inr (RAttr None))]
   \<and> outcome (get_all_options menu_env COURT_NAME 0) = Inr [''1-Court'']
   \<and> names_searched (events (begin_scrape_all menu_env
        \<lparr>PATH = ''static'', HEADLESS = True\<rparr> ''Maharashtra'' ''Pune''
        ''Pune, District and Sessions Court'' ''03-11-2026'' CIVIL 0)) = [''1-Court'']
   \<and> outcome (begin_scrape_all menu_env
        \<lparr>PATH = ''static'', HEADLESS = True\<rparr> ''Maharashtra'' ''Pune''
        ''Pune, District and Sessions Court'' ''03-11-2026'' CIVIL 0) = Inr ()"
  by code_simp

text \<open>
  C7, amended. \<open>begin_scrape\<close> is: open the portal, select state, district and court
  complex, then for the one court name the date-fill and captcha-solve steps and the export
  of the PDFs. \<open>begin_scrape_all\<close> is the same opening and selection, made once, then
  \<open>get_all_options\<close> on the court name menu and a loop over the names it returns, which
  does for each name a check of the modal, the same date-fill and captcha-solve steps, a wait
  of three seconds and the same export. The names returned are the texts of the options that
  have a value, not empty, and no \<^verbatim>\<open>disabled\<close> attribute, in the order of the page. The
  loop is sequential: the events of a court come after all the events of the court before
  it, it starts in the state the court before left, and the first exception that is not
  caught ends the loop.
\<close>

theorem begin_scrape_all_is_loop:
  "begin_scrape e self chosen_state chosen_dist chosen_court chosen_court_name chosen_date
       case_type =
   begin_scrape_spec e self chosen_state chosen_dist chosen_court chosen_court_name
       chosen_date case_type
   \<and> begin_scrape_all e self chosen_state chosen_dist chosen_court chosen_date case_type =
     begin_scrape_all_spec e self chosen_state chosen_dist chosen_court chosen_date case_type
   \<and> (\<forall>w names. outcome (get_all_options e COURT_NAME w) = Inr names \<longrightarrow>
         names = options_kept (drop 2 (events (get_all_options e COURT_NAME w))))
   \<and> events (for_each f [] w') = []
   \<and> events (for_each f (x # xs) w') =
       events (f x w') @
       (case outcome (f x w') of
          Inl ex \<Rightarrow> []
        | Inr u \<Rightarrow> events (for_each f xs (after (f x w'))))"
  using begin_scrape_is_spec[of e self chosen_state chosen_dist chosen_court chosen_court_name
      chosen_date case_type]
    begin_scrape_all_parts[of e self chosen_state chosen_dist chosen_court chosen_date case_type]
    get_all_options_kept[of e COURT_NAME] events_for_each_Cons[of f x xs w']
  by (simp add: for_each_simps(1))

theorem begin_scrape_all_is_loop_witness:
  "outcome (get_all_options menu_env COURT_NAME 0) = Inr [''1-Court'']
   \<and> options_kept (drop 2 (events (get_all_options menu_env COURT_NAME 0))) = [''1-Court'']"
proof -
  have h: "outcome (get_all_options menu_env COURT_NAME 0) = Inr [''1-Court'']"
    by code_simp
  note k = begin_scrape_all_is_loop[of menu_env, THEN conjunct2, THEN conjunct2,
      THEN conjunct1, rule_format, OF h]
  from k h show ?thesis by simp
qed

end
